theory Spec2Isabelle
  imports Main "HOL-Library.Char_ord"
begin

section \<open>Data model\<close>

text \<open>
  The two pure helpers of \<^verbatim>\<open>src/app/page.tsx\<close> are embedded: \<^verbatim>\<open>parseFEN\<close> (lines 108-123)
  and the markdown renderer \<^verbatim>\<open>formatInline\<close> / \<^verbatim>\<open>renderMarkdown\<close> (lines 225-252).

  In the FEN decoder a JavaScript string is a \<^typ>\<open>string\<close>; a \<^typ>\<open>char\<close> stands for one
  character below 256. The regular expressions of the markdown renderer name characters beyond
  that range, so there a string is the list of its UTF-16 code units, as natural numbers (see
  \<open>js_string\<close> below). An argument that may be \<^verbatim>\<open>undefined\<close> or \<^verbatim>\<open>null\<close> at run time is
  an \<open>option\<close> with \<^term>\<open>None\<close> for the absent value. Calling a method on an absent value
  throws a \<^verbatim>\<open>TypeError\<close>; that is the only exception the two functions could raise, and it is
  a value of the model.
\<close>

datatype js_error = TypeError

text \<open>A cell of the board is a string: \<^verbatim>\<open>''\<close> for an empty square, a one-character string otherwise.\<close>

type_synonym cell = string
type_synonym board = "cell list list"

text \<open>JavaScript truthiness of a string argument: \<^verbatim>\<open>!fen\<close> holds for an absent value and for \<^verbatim>\<open>''\<close>.\<close>

fun falsy :: "'a list option \<Rightarrow> bool" where
  "falsy None = True"
| "falsy (Some s) = (s = [])"

section \<open>String primitives\<close>

text \<open>
  The primitives are the same for both models of a string, so they are stated for lists of any
  character type.

  \<^verbatim>\<open>s.split(sep)\<close> for a one-character separator: \<open>cur\<close> is the piece read since the last
  separator. The result always has at least one piece (\<^verbatim>\<open>''.split('/')\<close> is \<^verbatim>\<open>['']\<close>).
\<close>

fun split_acc :: "'a \<Rightarrow> 'a list \<Rightarrow> 'a list \<Rightarrow> 'a list list" where
  "split_acc sep cur [] = [cur]"
| "split_acc sep cur (c # cs) =
     (if c = sep then cur # split_acc sep [] cs else split_acc sep (cur @ [c]) cs)"

definition split_str :: "'a \<Rightarrow> 'a list \<Rightarrow> 'a list list" where
  "split_str sep s = split_acc sep [] s"

text \<open>\<^verbatim>\<open>s.startsWith(p)\<close>; \<^verbatim>\<open>s.slice(n)\<close> is \<^term>\<open>drop n s\<close>.\<close>

definition startsWith :: "'a list \<Rightarrow> 'a list \<Rightarrow> bool" where
  "startsWith p s = (take (length p) s = p)"

section \<open>The FEN decoder\<close>

text \<open>The test \<^verbatim>\<open>char >= '1' && char <= '8'\<close> and \<^verbatim>\<open>parseInt(char)\<close> on such a character.\<close>

definition is_digit_1_8 :: "char \<Rightarrow> bool" where
  "is_digit_1_8 ch = (CHR ''1'' \<le> ch \<and> ch \<le> CHR ''8'')"

definition parseInt :: "char \<Rightarrow> nat" where
  "parseInt ch = of_char ch - of_char CHR ''0''"

text \<open>\<^verbatim>\<open>for (let i = 0; i < parseInt(char); i++) squares.push('')\<close>\<close>

function push_empty :: "nat \<Rightarrow> nat \<Rightarrow> cell list \<Rightarrow> cell list" where
  "push_empty i n squares = (if i < n then push_empty (Suc i) n (squares @ [[]]) else squares)"
  by pat_completeness auto
termination
  by (relation "measure (\<lambda>(i, n, squares). n - i)") auto

declare push_empty.simps [simp del]

text \<open>\<^verbatim>\<open>for (const char of row) { ... }\<close>: the loop body, character by character.\<close>

fun scan_row :: "string \<Rightarrow> cell list \<Rightarrow> cell list" where
  "scan_row [] squares = squares"
| "scan_row (ch # rest) squares =
     scan_row rest
       (if is_digit_1_8 ch then push_empty 0 (parseInt ch) squares else squares @ [[ch]])"

text \<open>\<^verbatim>\<open>while (squares.length < 8) squares.push('')\<close>\<close>

function pad_row :: "cell list \<Rightarrow> cell list" where
  "pad_row squares = (if length squares < 8 then pad_row (squares @ [[]]) else squares)"
  by pat_completeness auto
termination
  by (relation "measure (\<lambda>squares. 8 - length squares)") auto

declare pad_row.simps [simp del]

text \<open>The callback of \<^verbatim>\<open>rows.map\<close>: one rank descriptor to one rank.\<close>

definition decode_row :: "string \<Rightarrow> cell list" where
  "decode_row row = pad_row (scan_row row [])"

text \<open>
  \<^verbatim>\<open>fen.split(' ')[0]?.split('/') ?? []\<close>: the pieces of the first space-separated field.
  The fallback \<^verbatim>\<open>[]\<close> is the branch for a missing first field.
\<close>

definition fen_rows :: "string \<Rightarrow> string list" where
  "fen_rows fen = (case split_str CHR '' '' fen of [] \<Rightarrow> [] | field # _ \<Rightarrow> split_str CHR ''/'' field)"

text \<open>\<^verbatim>\<open>Array(8).fill(null).map(() => Array(8).fill(''))\<close>\<close>

definition empty_board :: board where
  "empty_board = replicate 8 (replicate 8 [])"

fun parseFEN :: "string option \<Rightarrow> js_error + board" where
  "parseFEN fen =
     (if falsy fen then Inr empty_board
      else (case fen of
              None \<Rightarrow> Inl TypeError
            | Some s \<Rightarrow> Inr (map decode_row (fen_rows s))))"

definition INITIAL_FEN :: string where
  "INITIAL_FEN = ''rnbqkbnr/pppppppp/8/8/8/8/PPPPPPPP/RNBQKBNR w KQkq - 0 1''"

section \<open>The markdown renderer\<close>

text \<open>
  A string of the renderer is the list of its UTF-16 code units: \<^verbatim>\<open>startsWith\<close>, \<^verbatim>\<open>slice\<close>,
  \<^verbatim>\<open>split\<close>, \<^verbatim>\<open>trim\<close> and the two regular expressions (neither has the \<^verbatim>\<open>u\<close> flag) all work
  on code units. \<open>cu\<close> is the code unit of a character of a source literal, \<open>utf16\<close> the
  string of a source literal.
\<close>

type_synonym code_unit = nat
type_synonym js_string = "code_unit list"

definition cu :: "char \<Rightarrow> code_unit" where
  "cu c = of_char c"

definition utf16 :: "string \<Rightarrow> js_string" where
  "utf16 s = map cu s"

text \<open>
  The elements the renderer produces. A span is one element of the array \<^verbatim>\<open>formatInline\<close>
  returns: \<open>Bold\<close> for \<^verbatim>\<open><strong>\<close>, \<open>PlainText\<close> for \<^verbatim>\<open><React.Fragment>\<close>.
  \<^verbatim>\<open>formatInline\<close> returns either its argument itself (\<open>Raw\<close>) or such an array (\<open>Spans\<close>).
  A block is the element built for one line: \<open>Heading 3\<close>, \<open>Heading 2\<close> and \<open>Heading 1\<close> are
  \<^verbatim>\<open><h4>\<close>, \<^verbatim>\<open><h3>\<close> and \<^verbatim>\<open><h2>\<close> (their child is the sliced line, a plain string);
  \<open>ListItem False\<close> is \<^verbatim>\<open><li className="... list-disc ...">\<close>, \<open>ListItem True\<close> is
  \<^verbatim>\<open><li className="... list-decimal ...">\<close>; \<open>BlankLine\<close> is \<^verbatim>\<open><div className="h-1" />\<close>;
  \<open>Paragraph\<close> is \<^verbatim>\<open><p>\<close>.
\<close>

datatype span = PlainText js_string | Bold js_string
datatype inline = Raw js_string | Spans "span list"
datatype block = Heading nat js_string | ListItem bool inline | BlankLine | Paragraph inline

text \<open>
  Character classes of the regular expressions, as ECMAScript defines them. The dot of
  \<^verbatim>\<open>(.*?)\<close> matches every code unit but a line terminator: line feed, carriage return, U+2028,
  U+2029. \<^verbatim>\<open>\s\<close> and \<^verbatim>\<open>trim()\<close> use the white space and line terminator characters: tab, line
  feed, vertical tab, form feed, carriage return, space, no-break space, U+1680, U+2000 to
  U+200A, U+2028, U+2029, U+202F, U+205F, U+3000 and U+FEFF. \<^verbatim>\<open>\d\<close> is \<^verbatim>\<open>[0-9]\<close>.
\<close>

definition is_line_terminator :: "code_unit \<Rightarrow> bool" where
  "is_line_terminator c = (c = 0x0A \<or> c = 0x0D \<or> c = 0x2028 \<or> c = 0x2029)"

definition is_space :: "code_unit \<Rightarrow> bool" where
  "is_space c = (c = 0x09 \<or> c = 0x0A \<or> c = 0x0B \<or> c = 0x0C \<or> c = 0x0D \<or> c = 0x20
                 \<or> c = 0xA0 \<or> c = 0x1680 \<or> (0x2000 \<le> c \<and> c \<le> 0x200A)
                 \<or> c = 0x2028 \<or> c = 0x2029 \<or> c = 0x202F \<or> c = 0x205F \<or> c = 0x3000
                 \<or> c = 0xFEFF)"

definition is_digit :: "code_unit \<Rightarrow> bool" where
  "is_digit c = (0x30 \<le> c \<and> c \<le> 0x39)"

text \<open>
  The rest of \<^verbatim>\<open>/\*\*(.*?)\*\*/\<close> after the opening marker: the lazy group first tries to go on
  with the closing \<^verbatim>\<open>\*\*\<close>, and only when that fails takes one more character into the group
  \<open>cap\<close>. The result is the captured group and the text after the match.
\<close>

fun lazy_dot :: "js_string \<Rightarrow> js_string \<Rightarrow> (js_string \<times> js_string) option" where
  "lazy_dot cap [] = None"
| "lazy_dot cap (c # cs) =
     (if startsWith (utf16 ''**'') (c # cs) then Some (cap, drop 2 (c # cs))
      else if is_line_terminator c then None
      else lazy_dot (cap @ [c]) cs)"

text \<open>One attempt to match \<^verbatim>\<open>/\*\*(.*?)\*\*/\<close> at the start of \<open>s\<close>.\<close>

definition match_bold :: "js_string \<Rightarrow> (js_string \<times> js_string) option" where
  "match_bold s = (if startsWith (utf16 ''**'') s then lazy_dot [] (drop 2 s) else None)"

text \<open>
  \<^verbatim>\<open>text.split(/\*\*(.*?)\*\*/g)\<close>: the split loop tries the expression at each position in turn;
  \<open>cur\<close> is the text since the end of the last match. At a match the text before it and the
  captured group are emitted and the scan goes on after the match; at the end of the string the
  remaining text is emitted.
\<close>

function split_bold :: "js_string \<Rightarrow> js_string \<Rightarrow> js_string list" where
  "split_bold cur [] = [cur]"
| "split_bold cur (c # cs) =
     (case match_bold (c # cs) of
        Some (cap, rest) \<Rightarrow> cur # cap # split_bold [] rest
      | None \<Rightarrow> split_bold (cur @ [c]) cs)"
  by pat_completeness auto
termination
proof (relation "measure (\<lambda>(cur, s). length s)")
  show "wf (measure (\<lambda>(cur, s). length s))" by simp
next
  fix cur :: js_string and c cs x2 cap rest
  assume m: "match_bold (c # cs) = Some x2" and x2: "(cap, rest) = x2"
  have lazy: "lazy_dot a s = Some (b, r) \<Longrightarrow> length r < length s" for a s b r
    by (induction s arbitrary: a) (auto split: if_splits intro: less_SucI)
  from m x2 have "lazy_dot [] (drop 2 (c # cs)) = Some (cap, rest)"
    by (simp add: match_bold_def split: if_splits)
  then have "length rest < length (drop 2 (c # cs))" by (rule lazy)
  then show "(([], rest), cur, c # cs) \<in> measure (\<lambda>(cur, s). length s)" by simp
next
  fix cur :: js_string and c cs
  show "((cur @ [c], cs), cur, c # cs) \<in> measure (\<lambda>(cur, s). length s)" by simp
qed

declare split_bold.simps [simp del]

definition formatInline :: "js_string \<Rightarrow> inline" where
  "formatInline text =
     (let parts = split_bold [] text in
      if length parts = 1 then Raw text
      else Spans (map (\<lambda>(i, part). if i mod 2 = 1 then Bold part else PlainText part)
                    (enumerate 0 parts)))"

text \<open>
  \<^verbatim>\<open>/^\d+\.\s/\<close> on a line: the text after the match, if the line matches. \<^verbatim>\<open>\d+\<close> is greedy,
  and giving back a digit never helps, since the next character would have to be the dot.
\<close>

definition match_ordered :: "js_string \<Rightarrow> js_string option" where
  "match_ordered line =
     (let digits = takeWhile is_digit line; rest = dropWhile is_digit line in
      if digits = [] then None
      else (case rest of
              dot # ws # content \<Rightarrow> if dot = cu CHR ''.'' \<and> is_space ws then Some content else None
            | _ \<Rightarrow> None))"

text \<open>\<^verbatim>\<open>/^\d+\.\s/.test(line)\<close> and \<^verbatim>\<open>line.replace(/^\d+\.\s/, '')\<close>\<close>

definition regex_test :: "js_string \<Rightarrow> bool" where
  "regex_test line = (case match_ordered line of Some content \<Rightarrow> True | None \<Rightarrow> False)"

definition regex_replace :: "js_string \<Rightarrow> js_string" where
  "regex_replace line = (case match_ordered line of Some content \<Rightarrow> content | None \<Rightarrow> line)"

text \<open>\<^verbatim>\<open>line.trim()\<close>\<close>

definition trim :: "js_string \<Rightarrow> js_string" where
  "trim s = rev (dropWhile is_space (rev (dropWhile is_space s)))"

text \<open>The callback of \<^verbatim>\<open>text.split('\n').map\<close>: one line to one element.\<close>

definition render_line :: "js_string \<Rightarrow> block" where
  "render_line line =
     (if startsWith (utf16 ''### '') line then Heading 3 (drop 4 line)
      else if startsWith (utf16 ''## '') line then Heading 2 (drop 3 line)
      else if startsWith (utf16 ''# '') line then Heading 1 (drop 2 line)
      else if startsWith (utf16 ''- '') line \<or> startsWith (utf16 ''* '') line
        then ListItem False (formatInline (drop 2 line))
      else if regex_test line then ListItem True (formatInline (regex_replace line))
      else if trim line = [] then BlankLine
      else Paragraph (formatInline line))"

text \<open>
  \<^verbatim>\<open>renderMarkdown\<close> returns \<^verbatim>\<open>null\<close> (\<^term>\<open>None\<close>) for a falsy argument, and otherwise the
  container \<^verbatim>\<open><div className="space-y-2">\<close> with one child per line, modelled as the list of
  its children.
\<close>

fun renderMarkdown :: "js_string option \<Rightarrow> js_error + block list option" where
  "renderMarkdown text =
     (if falsy text then Inr None
      else (case text of
              None \<Rightarrow> Inl TypeError
            | Some s \<Rightarrow> Inr (Some (map render_line (split_str 0x0A s)))))"

section \<open>The functions as programs that may throw or not return\<close>

text \<open>
  The definitions above are total functions. To say that the source functions return on every
  input, they are written once more as programs: a run that does not return is \<^term>\<open>None\<close>, a
  run that throws is \<open>Some (Inl e)\<close>, a run that returns \<open>v\<close> is \<open>Some (Inr v)\<close>. The \<^verbatim>\<open>for\<close> and
  \<^verbatim>\<open>while\<close> loops of \<^verbatim>\<open>parseFEN\<close> and the scanning loop of \<^verbatim>\<open>split\<close> are partial functions, so
  nothing in their definition says that they end. The primitives on strings are those of the
  sections above.
\<close>

type_synonym 'a run = "(js_error + 'a) option"

text \<open>
  A method call needs its receiver: on an absent value it throws. \<open>bind_run\<close> runs a second
  step on the value of a first one, unless that did not return or threw; \<open>map_run\<close> is
  \<^verbatim>\<open>Array.prototype.map\<close> with such a callback.
\<close>

definition receiver :: "'a option \<Rightarrow> 'a run" where
  "receiver v = (case v of None \<Rightarrow> Some (Inl TypeError) | Some s \<Rightarrow> Some (Inr s))"

definition bind_run :: "'a run \<Rightarrow> ('a \<Rightarrow> 'b run) \<Rightarrow> 'b run" where
  "bind_run m f = (case m of None \<Rightarrow> None | Some (Inl e) \<Rightarrow> Some (Inl e) | Some (Inr x) \<Rightarrow> f x)"

fun map_run :: "('a \<Rightarrow> 'b run) \<Rightarrow> 'a list \<Rightarrow> 'b list run" where
  "map_run f [] = Some (Inr [])"
| "map_run f (x # xs) =
     bind_run (f x) (\<lambda>y. bind_run (map_run f xs) (\<lambda>ys. Some (Inr (y # ys))))"

text \<open>
  \<^verbatim>\<open>for (let i = 0; i < parseInt(char); i++) squares.push('')\<close> and
  \<^verbatim>\<open>while (squares.length < 8) squares.push('')\<close> as loops.
\<close>

partial_function (option) push_empty_loop :: "nat \<Rightarrow> nat \<Rightarrow> cell list \<Rightarrow> cell list option" where
  "push_empty_loop i n squares =
     (if i < n then push_empty_loop (Suc i) n (squares @ [[]]) else Some squares)"

partial_function (option) pad_row_loop :: "cell list \<Rightarrow> cell list option" where
  "pad_row_loop squares =
     (if length squares < 8 then pad_row_loop (squares @ [[]]) else Some squares)"

text \<open>The \<^verbatim>\<open>for ... of\<close> loop over the characters of a row, the callback of \<^verbatim>\<open>rows.map\<close>, and \<^verbatim>\<open>parseFEN\<close>.\<close>

fun scan_row_run :: "string \<Rightarrow> cell list \<Rightarrow> cell list option" where
  "scan_row_run [] squares = Some squares"
| "scan_row_run (ch # rest) squares =
     Option.bind
       (if is_digit_1_8 ch then push_empty_loop 0 (parseInt ch) squares
        else Some (squares @ [[ch]]))
       (scan_row_run rest)"

definition decode_row_run :: "string \<Rightarrow> cell list run" where
  "decode_row_run row = map_option Inr (Option.bind (scan_row_run row []) pad_row_loop)"

definition parseFEN_run :: "string option \<Rightarrow> board run" where
  "parseFEN_run fen =
     (if falsy fen then Some (Inr empty_board)
      else bind_run (receiver fen) (\<lambda>s. map_run decode_row_run (fen_rows s)))"

text \<open>
  The loop of \<^verbatim>\<open>text.split(/\*\*(.*?)\*\*/g)\<close>: \<open>out\<close> is the array built so far, \<open>cur\<close> the text
  since the last match, \<open>s\<close> the text from the current position on.
\<close>

partial_function (option) split_bold_loop ::
    "js_string list \<Rightarrow> js_string \<Rightarrow> js_string \<Rightarrow> js_string list option" where
  "split_bold_loop out cur s =
     (case s of
        [] \<Rightarrow> Some (out @ [cur])
      | c # cs \<Rightarrow>
          (case match_bold s of
             Some (cap, rest) \<Rightarrow> split_bold_loop (out @ [cur, cap]) [] rest
           | None \<Rightarrow> split_bold_loop out (cur @ [c]) cs))"

text \<open>
  \<^verbatim>\<open>formatInline\<close> calls \<^verbatim>\<open>text.split\<close> with no guard, so it throws on an absent argument;
  \<^verbatim>\<open>renderMarkdown\<close> calls it on \<^verbatim>\<open>line.slice(2)\<close>, on the result of \<^verbatim>\<open>line.replace\<close> and on
  \<^verbatim>\<open>line\<close>.
\<close>

definition formatInline_run :: "js_string option \<Rightarrow> inline run" where
  "formatInline_run text =
     bind_run (receiver text) (\<lambda>t.
       map_option
         (\<lambda>parts. Inr (if length parts = 1 then Raw t
                        else Spans (map (\<lambda>(i, part). if i mod 2 = 1 then Bold part else PlainText part)
                                      (enumerate 0 parts))))
         (split_bold_loop [] [] t))"

definition render_line_run :: "js_string \<Rightarrow> block run" where
  "render_line_run line =
     (if startsWith (utf16 ''### '') line then Some (Inr (Heading 3 (drop 4 line)))
      else if startsWith (utf16 ''## '') line then Some (Inr (Heading 2 (drop 3 line)))
      else if startsWith (utf16 ''# '') line then Some (Inr (Heading 1 (drop 2 line)))
      else if startsWith (utf16 ''- '') line \<or> startsWith (utf16 ''* '') line
        then bind_run (formatInline_run (Some (drop 2 line))) (\<lambda>i. Some (Inr (ListItem False i)))
      else if regex_test line
        then bind_run (formatInline_run (Some (regex_replace line))) (\<lambda>i. Some (Inr (ListItem True i)))
      else if trim line = [] then Some (Inr BlankLine)
      else bind_run (formatInline_run (Some line)) (\<lambda>i. Some (Inr (Paragraph i))))"

definition renderMarkdown_run :: "js_string option \<Rightarrow> block list option run" where
  "renderMarkdown_run text =
     (if falsy text then Some (Inr None)
      else bind_run (receiver text) (\<lambda>s.
             bind_run (map_run render_line_run (split_str 0x0A s)) (\<lambda>blocks. Some (Inr (Some blocks)))))"

section \<open>Reference definitions\<close>

text \<open>
  The definitions of this section do not come from the source. They say, in the words of the
  specification, what the source functions are compared with.
\<close>

text \<open>
  The number of empty cells a digit \<open>1\<close> to \<open>8\<close> stands for, the cells one character of a rank
  descriptor expands to, the expansion of a whole descriptor and its number of cells.
\<close>

definition spec_digit_value :: "char \<Rightarrow> nat option" where
  "spec_digit_value ch =
     map_of [(CHR ''1'', 1), (CHR ''2'', 2), (CHR ''3'', 3), (CHR ''4'', 4),
             (CHR ''5'', 5), (CHR ''6'', 6), (CHR ''7'', 7), (CHR ''8'', 8)] ch"

definition spec_expand_char :: "char \<Rightarrow> cell list" where
  "spec_expand_char ch = (case spec_digit_value ch of Some n \<Rightarrow> replicate n [] | None \<Rightarrow> [[ch]])"

definition spec_expand_row :: "string \<Rightarrow> cell list" where
  "spec_expand_row row = concat (map spec_expand_char row)"

definition spec_cell_count :: "string \<Rightarrow> nat" where
  "spec_cell_count row = sum_list (map (\<lambda>ch. case spec_digit_value ch of Some n \<Rightarrow> n | None \<Rightarrow> 1) row)"

text \<open>The lengths of the ranks of a result, and the number of its ranks of eight empty cells.\<close>

definition rank_lengths :: "js_error + board \<Rightarrow> nat list" where
  "rank_lengths r = (case r of Inl e \<Rightarrow> [] | Inr b \<Rightarrow> map length b)"

definition count_empty_ranks :: "js_error + board \<Rightarrow> nat" where
  "count_empty_ranks r =
     (case r of Inl e \<Rightarrow> 0 | Inr b \<Rightarrow> length (filter (\<lambda>rank. rank = replicate 8 []) b))"

text \<open>The substring before the first space character.\<close>

definition prefix_before_space :: "string \<Rightarrow> string" where
  "prefix_before_space s = takeWhile (\<lambda>c. c \<noteq> CHR '' '') s"

text \<open>
  The spans an inline result stands for: a bare string is displayed as one plain span. The source
  text of a span puts the markers back around a bold one.
\<close>

fun spans_of :: "inline \<Rightarrow> span list" where
  "spans_of (Raw text) = [PlainText text]"
| "spans_of (Spans spans) = spans"

fun span_source :: "span \<Rightarrow> js_string" where
  "span_source (PlainText t) = t"
| "span_source (Bold t) = utf16 ''**'' @ t @ utf16 ''**''"

text \<open>
  The specification's inline pass. \<open>find_marker\<close> cuts a text at its first \<^verbatim>\<open>**\<close>. A text with an
  opening and a closing marker gives the plain text before the opening marker, the bold text
  between the two, and the spans of the text after the closing marker; a text with no marker, or
  with an opening marker that is never closed, is one plain span.
\<close>

fun find_marker :: "js_string \<Rightarrow> js_string \<Rightarrow> (js_string \<times> js_string) option" where
  "find_marker pre [] = None"
| "find_marker pre (c # cs) =
     (if startsWith (utf16 ''**'') (c # cs) then Some (pre, drop 2 (c # cs))
      else find_marker (pre @ [c]) cs)"

function spec_spans :: "js_string \<Rightarrow> span list" where
  "spec_spans s =
     (case find_marker [] s of
        None \<Rightarrow> [PlainText s]
      | Some (pre, rest) \<Rightarrow>
          (case find_marker [] rest of
             None \<Rightarrow> [PlainText s]
           | Some (content, rest') \<Rightarrow> PlainText pre # Bold content # spec_spans rest'))"
  by pat_completeness auto
termination
proof (relation "measure length")
  show "wf (measure length)" by simp
next
  fix s :: js_string and x2 pre rest y2 content rest'
  assume a: "find_marker [] s = Some x2" "(pre, rest) = x2"
    and b: "find_marker [] rest = Some y2" "(content, rest') = y2"
  have fm: "find_marker a t = Some (p, r) \<Longrightarrow> length r < length t" for a t p r
    by (induction t arbitrary: a) (auto split: if_splits intro: less_SucI)
  from a have "length rest < length s" using fm by metis
  moreover from b have "length rest' < length rest" using fm by metis
  ultimately show "(rest', s) \<in> measure length" by simp
qed

declare spec_spans.simps [simp del]

text \<open>
  A bold pair at the start of a text \<open>s\<close>, with content \<open>x\<close> and remainder \<open>r\<close>: \<open>s\<close> is an
  opening marker, \<open>x\<close>, a closing marker and \<open>r\<close>; \<open>x\<close> holds no line terminator; and the
  closing marker is the first marker after the opening one.
\<close>

definition bold_pair :: "js_string \<Rightarrow> js_string \<Rightarrow> js_string \<Rightarrow> bool" where
  "bold_pair s x r =
     (s = utf16 ''**'' @ x @ utf16 ''**'' @ r
      \<and> list_all (\<lambda>c. \<not> is_line_terminator c) x
      \<and> find_marker [] (x @ utf16 ''**'' @ r) = Some (x, r))"

text \<open>
  The tagging step of \<^verbatim>\<open>formatInline\<close> on its own, from a start index \<open>n\<close>: the part at an odd
  index is bold, the part at an even index is plain.
\<close>

definition tag_parts :: "nat \<Rightarrow> js_string list \<Rightarrow> span list" where
  "tag_parts n parts =
     map (\<lambda>(i, part). if i mod 2 = 1 then Bold part else PlainText part) (enumerate n parts)"

text \<open>
  The ordered-list pattern as the specification words it: one or more digits, a literal dot, a
  space (the character U+0020), then content.
\<close>

definition spec_ordered_item :: "js_string \<Rightarrow> bool" where
  "spec_ordered_item line =
     (let digits = takeWhile (\<lambda>c. c \<in> set (utf16 ''0123456789'')) line
      in digits \<noteq> [] \<and> startsWith (utf16 ''. '') (drop (length digits) line))"

section \<open>The FEN decoder: lemmas\<close>

text \<open>The three loops in closed form.\<close>

lemma push_empty_eq: "push_empty i n squares = squares @ replicate (n - i) []"
proof (induction i n squares rule: push_empty.induct)
  case (1 i n squares)
  show ?case
  proof (cases "i < n")
    case True
    then have "n - i = Suc (n - Suc i)" by arith
    with True 1 show ?thesis
      by (simp add: push_empty.simps [of i] replicate_app_Cons_same)
  next
    case False
    then show ?thesis by (simp add: push_empty.simps [of i])
  qed
qed

lemma pad_row_eq: "pad_row squares = squares @ replicate (8 - length squares) []"
proof (induction squares rule: pad_row.induct)
  case (1 squares)
  show ?case
  proof (cases "length squares < 8")
    case True
    then have "8 - length squares = Suc (8 - Suc (length squares))" by arith
    with True 1 show ?thesis
      by (simp add: pad_row.simps [of squares] replicate_app_Cons_same)
  next
    case False
    then show ?thesis by (simp add: pad_row.simps [of squares])
  qed
qed

lemma of_char_nat_eq: "(of_char ch :: nat) = of_char d \<Longrightarrow> ch = d"
  by simp

lemma is_digit_1_8_iff: "is_digit_1_8 ch \<longleftrightarrow> ch \<in> set ''12345678''"
proof
  assume "is_digit_1_8 ch"
  then have "(49::nat) \<le> of_char ch \<and> of_char ch \<le> (56::nat)"
    by (simp add: is_digit_1_8_def less_eq_char_def)
  then have "(of_char ch :: nat) \<in> {49, 50, 51, 52, 53, 54, 55, 56}"
    by auto
  then have "(of_char ch :: nat) \<in> of_char ` set ''12345678''"
    by simp
  then obtain d where "d \<in> set ''12345678''" "(of_char ch :: nat) = of_char d"
    by blast
  then show "ch \<in> set ''12345678''"
    using of_char_nat_eq by blast
next
  assume "ch \<in> set ''12345678''"
  then show "is_digit_1_8 ch"
    by (auto simp: is_digit_1_8_def)
qed

lemma digit_branch_eq:
  "(if is_digit_1_8 ch then replicate (parseInt ch) [] else [[ch]]) = spec_expand_char ch"
proof (cases "is_digit_1_8 ch")
  case True
  then have "ch \<in> set ''12345678''" using is_digit_1_8_iff by blast
  then have "replicate (parseInt ch) [] = spec_expand_char ch"
    by (auto simp: parseInt_def spec_expand_char_def spec_digit_value_def)
  with True show ?thesis by simp
next
  case False
  then have "ch \<notin> set ''12345678''" using is_digit_1_8_iff by blast
  then have "spec_digit_value ch = None"
    by (simp add: spec_digit_value_def)
  with False show ?thesis by (simp add: spec_expand_char_def)
qed

lemma scan_row_eq: "scan_row row squares = squares @ spec_expand_row row"
proof (induction row arbitrary: squares)
  case Nil
  show ?case by (simp add: spec_expand_row_def)
next
  case (Cons ch rest)
  have "(if is_digit_1_8 ch then push_empty 0 (parseInt ch) squares else squares @ [[ch]])
        = squares @ spec_expand_char ch"
    using digit_branch_eq [of ch] by (simp add: push_empty_eq split: if_splits)
  then show ?case
    using Cons.IH by (simp add: spec_expand_row_def)
qed

lemma decode_row_eq:
  "decode_row row = spec_expand_row row @ replicate (8 - length (spec_expand_row row)) []"
  by (simp add: decode_row_def scan_row_eq pad_row_eq)

lemma length_spec_expand_row: "length (spec_expand_row row) = spec_cell_count row"
proof (induction row)
  case Nil
  show ?case by (simp add: spec_expand_row_def spec_cell_count_def)
next
  case (Cons ch rest)
  have "length (spec_expand_char ch) = (case spec_digit_value ch of Some n \<Rightarrow> n | None \<Rightarrow> 1)"
    by (simp add: spec_expand_char_def split: option.split)
  with Cons show ?case
    by (simp add: spec_expand_row_def spec_cell_count_def)
qed

lemma length_decode_row: "length (decode_row row) = max 8 (spec_cell_count row)"
  by (simp add: decode_row_eq length_spec_expand_row max_def)

lemma split_acc_eq:
  "split_acc sep cur s =
     (cur @ takeWhile (\<lambda>c. c \<noteq> sep) s) #
       (case dropWhile (\<lambda>c. c \<noteq> sep) s of [] \<Rightarrow> [] | _ # rest \<Rightarrow> split_acc sep [] rest)"
  by (induction s arbitrary: cur) simp_all

lemma length_split_acc: "length (split_acc sep cur s) = Suc (count_list s sep)"
  by (induction s arbitrary: cur) simp_all

lemma fen_rows_eq: "fen_rows s = split_str CHR ''/'' (prefix_before_space s)"
  by (simp add: fen_rows_def split_str_def prefix_before_space_def split_acc_eq [of "CHR '' ''"])

lemma parseFEN_nonempty: "s \<noteq> [] \<Longrightarrow> parseFEN (Some s) = Inr (map decode_row (fen_rows s))"
  by simp

lemma prefix_before_space_idem: "prefix_before_space (prefix_before_space s) = prefix_before_space s"
  by (simp add: prefix_before_space_def takeWhile_idem)

lemma prefix_before_space_Nil: "prefix_before_space s = [] \<longleftrightarrow> s = [] \<or> hd s = CHR '' ''"
  by (cases s) (simp_all add: prefix_before_space_def)

section \<open>The FEN decoder: results\<close>

text \<open>
  Claim C6. \<^verbatim>\<open>parseFEN\<close> applied to the empty string, or to an absent value, returns a board
  of exactly 8 ranks of 8 empty cells each; no error is raised.
\<close>

theorem parseFEN_empty_input:
  "parseFEN (Some []) = Inr (replicate 8 (replicate 8 []))
   \<and> parseFEN None = Inr (replicate 8 (replicate 8 []))"
  by (simp add: empty_board_def)

text \<open>
  Claim C2. Scanning a rank descriptor from left to right, each digit \<open>1\<close> to \<open>8\<close> expands to that
  many consecutive empty cells and every other character, whether a piece letter or not, becomes
  one cell holding that character. The scan of a descriptor is the concatenation of the
  expansions of its characters, the rank is that scan followed by the padding, and the board of
  a non-empty input is the list of the ranks of its descriptors.
\<close>

theorem parseFEN_expands_characters:
  "scan_row row [] = concat (map spec_expand_char row)
   \<and> decode_row row = spec_expand_row row @ replicate (8 - length (spec_expand_row row)) []
   \<and> (s \<noteq> [] \<longrightarrow>
        parseFEN (Some s) =
          Inr (map (\<lambda>row. spec_expand_row row @ replicate (8 - length (spec_expand_row row)) [])
                 (fen_rows s)))"
proof (intro conjI impI)
  show "scan_row row [] = concat (map spec_expand_char row)"
    using scan_row_eq [of row "[]"] by (simp add: spec_expand_row_def)
  show "decode_row row = spec_expand_row row @ replicate (8 - length (spec_expand_row row)) []"
    by (rule decode_row_eq)
  assume "s \<noteq> []"
  then have "parseFEN (Some s) = Inr (map decode_row (fen_rows s))"
    by (rule parseFEN_nonempty)
  also have "map decode_row (fen_rows s) =
      map (\<lambda>row. spec_expand_row row @ replicate (8 - length (spec_expand_row row)) []) (fen_rows s)"
    by (rule map_cong) (simp_all add: decode_row_eq)
  finally show "parseFEN (Some s) =
      Inr (map (\<lambda>row. spec_expand_row row @ replicate (8 - length (spec_expand_row row)) [])
             (fen_rows s))" .
qed

theorem parseFEN_expands_characters_witness:
  "''2k1x9/0 w'' \<noteq> []
   \<and> parseFEN (Some ''2k1x9/0 w'') =
       Inr [[[], [], ''k'', [], ''x'', ''9'', [], []], [''0'', [], [], [], [], [], [], []]]"
  using parseFEN_expands_characters [of "[]" "''2k1x9/0 w''"]
  by (simp add: fen_rows_def split_str_def spec_expand_row_def spec_expand_char_def
      spec_digit_value_def eval_nat_numeral)

text \<open>
  Claim C10. The length of a decoded rank is the maximum of 8 and the number of cells its
  descriptor expands to (digit expansions plus literal characters). Nothing is truncated: a
  descriptor that expands to more than 8 cells gives a rank longer than 8 cells.
\<close>

theorem decode_row_length_is_max:
  "length (decode_row row) = max 8 (spec_cell_count row)
   \<and> (8 < spec_cell_count row \<longrightarrow> 8 < length (decode_row row))
   \<and> (s \<noteq> [] \<longrightarrow>
        rank_lengths (parseFEN (Some s)) = map (\<lambda>row. max 8 (spec_cell_count row)) (fen_rows s))"
proof (intro conjI impI)
  show "length (decode_row row) = max 8 (spec_cell_count row)"
    by (rule length_decode_row)
  show "8 < length (decode_row row)" if "8 < spec_cell_count row"
    using that by (simp add: length_decode_row)
  show "rank_lengths (parseFEN (Some s)) = map (\<lambda>row. max 8 (spec_cell_count row)) (fen_rows s)"
    if "s \<noteq> []"
    using that by (simp add: rank_lengths_def length_decode_row)
qed

theorem decode_row_length_is_max_witness:
  "8 < spec_cell_count ''4pp4'' \<and> length (decode_row ''4pp4'') = 10
   \<and> ''4pp4/3/8 b'' \<noteq> [] \<and> rank_lengths (parseFEN (Some ''4pp4/3/8 b'')) = [10, 8, 8]"
  using decode_row_length_is_max [of "''4pp4''" "''4pp4/3/8 b''"]
  by (simp add: fen_rows_def split_str_def spec_cell_count_def spec_digit_value_def)

text \<open>
  Claim C1 says that every rank has exactly 8 cells for every input. The descriptor \<open>81\<close>
  expands to 9 cells, and the only adjustment of the source is the padding loop, so the rank
  has 9 cells.
\<close>

theorem parseFEN_over_long_rank_counterexample:
  "rank_lengths (parseFEN (Some ''81'')) = [9]"
  by (simp add: rank_lengths_def fen_rows_def split_str_def length_decode_row
      spec_cell_count_def spec_digit_value_def)

text \<open>
  Claim C1, as amended. Every input string gives a board. For a non-empty input it has one rank
  per \<open>/\<close>-separated descriptor of the piece-placement field (the number of \<open>/\<close> in the field
  plus one); for the empty input it has the 8 ranks of the fallback. Every rank has at least 8
  cells: it is the expansion of its descriptor followed by the padding, which brings an
  expansion of at most 8 cells to exactly 8 cells and leaves a longer one as it is.
\<close>

theorem parseFEN_rank_shape:
  "\<exists>b. parseFEN (Some s) = Inr b
     \<and> length b = (if s = [] then 8 else Suc (count_list (prefix_before_space s) CHR ''/''))
     \<and> (\<forall>rank \<in> set b. 8 \<le> length rank)
     \<and> (s \<noteq> [] \<longrightarrow> length b = length (fen_rows s)
          \<and> (\<forall>i < length b.
                b ! i = spec_expand_row (fen_rows s ! i)
                          @ replicate (8 - spec_cell_count (fen_rows s ! i)) []
                \<and> (spec_cell_count (fen_rows s ! i) \<le> 8 \<longrightarrow> length (b ! i) = 8)))"
proof (cases "s = []")
  case True
  then show ?thesis by (simp add: empty_board_def)
next
  case False
  let ?b = "map decode_row (fen_rows s)"
  have "parseFEN (Some s) = Inr ?b"
    using False by (rule parseFEN_nonempty)
  moreover have "length ?b = Suc (count_list (prefix_before_space s) CHR ''/'')"
    by (simp add: fen_rows_eq split_str_def length_split_acc)
  moreover have "\<forall>rank \<in> set ?b. 8 \<le> length rank"
    by (auto simp: length_decode_row)
  moreover have "\<forall>i < length ?b.
      ?b ! i = spec_expand_row (fen_rows s ! i)
                 @ replicate (8 - spec_cell_count (fen_rows s ! i)) []
      \<and> (spec_cell_count (fen_rows s ! i) \<le> 8 \<longrightarrow> length (?b ! i) = 8)"
    by (simp add: length_decode_row decode_row_eq length_spec_expand_row)
  ultimately have "parseFEN (Some s) = Inr ?b
     \<and> length ?b = (if s = [] then 8 else Suc (count_list (prefix_before_space s) CHR ''/''))
     \<and> (\<forall>rank \<in> set ?b. 8 \<le> length rank)
     \<and> (s \<noteq> [] \<longrightarrow> length ?b = length (fen_rows s)
          \<and> (\<forall>i < length ?b.
                ?b ! i = spec_expand_row (fen_rows s ! i)
                           @ replicate (8 - spec_cell_count (fen_rows s ! i)) []
                \<and> (spec_cell_count (fen_rows s ! i) \<le> 8 \<longrightarrow> length (?b ! i) = 8)))"
    using False by (simp only: if_False length_map simp_thms)
  then show ?thesis by (rule exI [of _ ?b])
qed

theorem parseFEN_rank_shape_witness:
  "''3/k6Q/9p7 w - -'' \<noteq> []
   \<and> parseFEN (Some ''3/k6Q/9p7 w - -'') =
     Inr [[[], [], [], [], [], [], [], []],
          [''k'', [], [], [], [], [], [], ''Q''],
          [''9'', ''p'', [], [], [], [], [], [], []]]
   \<and> Suc (count_list (prefix_before_space ''3/k6Q/9p7 w - -'') CHR ''/'') = 3
   \<and> spec_cell_count (fen_rows ''3/k6Q/9p7 w - -'' ! 0) \<le> 8"
  using parseFEN_rank_shape [of "''3/k6Q/9p7 w - -''"]
  by (simp add: fen_rows_def split_str_def decode_row_eq spec_expand_row_def spec_expand_char_def
      spec_cell_count_def spec_digit_value_def prefix_before_space_def eval_nat_numeral)

text \<open>
  Claim C5 says that a non-empty input decodes like its prefix before the first space. For an
  input that begins with a space that prefix is empty: the input itself passes the guard and
  gives one rank of 8 empty cells, its prefix gives the 8 ranks of the fallback.
\<close>

theorem parseFEN_leading_space_counterexample:
  "parseFEN (Some '' w'') \<noteq> parseFEN (Some (prefix_before_space '' w''))"
  by (simp add: prefix_before_space_def empty_board_def fen_rows_def split_str_def decode_row_eq
      spec_expand_row_def eval_nat_numeral)

text \<open>
  Claim C5, as amended. A non-empty input that does not begin with a space decodes like its
  prefix before the first space. Two non-empty inputs with the same prefix before the first
  space decode alike, so the later fields never affect the board: the board of a non-empty
  input is the list of the decoded \<open>/\<close>-separated pieces of that prefix.
\<close>

theorem parseFEN_ignores_later_fields:
  "(s \<noteq> [] \<and> hd s \<noteq> CHR '' '' \<longrightarrow>
      parseFEN (Some s) = parseFEN (Some (prefix_before_space s)))
   \<and> (s \<noteq> [] \<and> t \<noteq> [] \<and> prefix_before_space s = prefix_before_space t \<longrightarrow>
      parseFEN (Some s) = parseFEN (Some t))
   \<and> (s \<noteq> [] \<longrightarrow>
      parseFEN (Some s) = Inr (map decode_row (split_str CHR ''/'' (prefix_before_space s))))"
proof (intro conjI impI)
  assume a: "s \<noteq> [] \<and> hd s \<noteq> CHR '' ''"
  then have "prefix_before_space s \<noteq> []"
    by (simp add: prefix_before_space_Nil)
  then have "parseFEN (Some (prefix_before_space s))
      = Inr (map decode_row (fen_rows (prefix_before_space s)))"
    by (rule parseFEN_nonempty)
  moreover have "fen_rows (prefix_before_space s) = fen_rows s"
    by (simp add: fen_rows_eq prefix_before_space_idem)
  ultimately show "parseFEN (Some s) = parseFEN (Some (prefix_before_space s))"
    using a by (simp add: parseFEN_nonempty)
next
  assume "s \<noteq> [] \<and> t \<noteq> [] \<and> prefix_before_space s = prefix_before_space t"
  then show "parseFEN (Some s) = parseFEN (Some t)"
    by (simp add: fen_rows_eq)
next
  assume "s \<noteq> []"
  then show "parseFEN (Some s) = Inr (map decode_row (split_str CHR ''/'' (prefix_before_space s)))"
    by (simp add: fen_rows_eq)
qed

theorem parseFEN_ignores_later_fields_witness:
  "''8/k7 w KQkq - 0 1'' \<noteq> [] \<and> hd ''8/k7 w KQkq - 0 1'' \<noteq> CHR '' '' \<and> ''8/k7 b - e3 5 9'' \<noteq> []
   \<and> prefix_before_space ''8/k7 w KQkq - 0 1'' = ''8/k7''
   \<and> prefix_before_space ''8/k7 b - e3 5 9'' = ''8/k7''
   \<and> parseFEN (Some ''8/k7 w KQkq - 0 1'') = parseFEN (Some ''8/k7'')
   \<and> parseFEN (Some ''8/k7 w KQkq - 0 1'') = parseFEN (Some ''8/k7 b - e3 5 9'')"
  using parseFEN_ignores_later_fields [of "''8/k7 w KQkq - 0 1''" "''8/k7 b - e3 5 9''"]
  by (simp add: prefix_before_space_def fen_rows_def split_str_def)

text \<open>
  Claim C7, as amended. The starting position decodes to 8 ranks: the first is
  \<open>r n b q k b n r\<close>, the last is \<open>R N B Q K B N R\<close>, the second and the seventh are the pawn
  ranks, and the four ranks between the pawn ranks are fully empty.
\<close>

theorem parseFEN_initial_position:
  "parseFEN (Some INITIAL_FEN) =
     Inr [[''r'', ''n'', ''b'', ''q'', ''k'', ''b'', ''n'', ''r''],
          [''p'', ''p'', ''p'', ''p'', ''p'', ''p'', ''p'', ''p''],
          [[], [], [], [], [], [], [], []],
          [[], [], [], [], [], [], [], []],
          [[], [], [], [], [], [], [], []],
          [[], [], [], [], [], [], [], []],
          [''P'', ''P'', ''P'', ''P'', ''P'', ''P'', ''P'', ''P''],
          [''R'', ''N'', ''B'', ''Q'', ''K'', ''B'', ''N'', ''R'']]"
  by (simp add: INITIAL_FEN_def fen_rows_def split_str_def decode_row_eq spec_expand_row_def
      spec_expand_char_def spec_digit_value_def eval_nat_numeral)

text \<open>
  Claim C7 says that two fully empty ranks lie between the pawn ranks. The field
  \<open>8/8/8/8\<close> of \<^term>\<open>INITIAL_FEN\<close> gives four.
\<close>

theorem parseFEN_initial_position_counterexample:
  "count_empty_ranks (parseFEN (Some INITIAL_FEN)) = 4"
  by (simp add: count_empty_ranks_def INITIAL_FEN_def fen_rows_def split_str_def decode_row_eq
      spec_expand_row_def spec_expand_char_def spec_digit_value_def eval_nat_numeral)

section \<open>The markdown renderer: lemmas\<close>

text \<open>Source literals are evaluated to their code units.\<close>

lemma utf16_Nil [simp]: "utf16 [] = []"
  by (simp add: utf16_def)

lemma utf16_Cons [simp]: "utf16 (c # cs) = of_char c # utf16 cs"
  by (simp add: utf16_def cu_def)

lemma cu_of_char [simp]: "cu c = of_char c"
  by (simp add: cu_def)

text \<open>What a match of the bold pattern and a cut at a marker say about the text.\<close>

lemma startsWith_append: "startsWith p s \<Longrightarrow> p @ drop (length p) s = s"
  by (metis append_take_drop_id startsWith_def)

lemma startsWith_iff: "startsWith p s \<longleftrightarrow> (\<exists>rest. s = p @ rest)"
proof
  assume "startsWith p s"
  then have "s = p @ drop (length p) s"
    by (metis append_take_drop_id startsWith_def)
  then show "\<exists>rest. s = p @ rest" ..
next
  assume "\<exists>rest. s = p @ rest"
  then show "startsWith p s" by (auto simp: startsWith_def)
qed

lemma startsWith_drop: "startsWith (utf16 ''**'') s \<Longrightarrow> utf16 ''**'' @ drop 2 s = s"
  using startsWith_append [of "utf16 ''**''" s] by (simp add: numeral_2_eq_2)

lemma find_marker_Some:
  "find_marker pre s = Some (p, r) \<Longrightarrow> \<exists>x. p = pre @ x \<and> s = x @ (utf16 ''**'') @ r"
proof (induction s arbitrary: pre)
  case Nil
  then show ?case by simp
next
  case (Cons c cs)
  show ?case
  proof (cases "startsWith (utf16 ''**'') (c # cs)")
    case True
    then have "utf16 ''**'' @ drop 2 (c # cs) = c # cs"
      by (rule startsWith_drop)
    with True Cons.prems show ?thesis by simp
  next
    case False
    with Cons.prems have "find_marker (pre @ [c]) cs = Some (p, r)" by simp
    from Cons.IH [OF this] obtain x where "p = (pre @ [c]) @ x" "cs = x @ (utf16 ''**'') @ r" by blast
    then have "p = pre @ (c # x) \<and> c # cs = (c # x) @ (utf16 ''**'') @ r" by simp
    then show ?thesis by blast
  qed
qed

lemma lazy_dot_Some:
  "lazy_dot cap s = Some (p, r) \<Longrightarrow> \<exists>x. p = cap @ x \<and> s = x @ (utf16 ''**'') @ r"
proof (induction s arbitrary: cap)
  case Nil
  then show ?case by simp
next
  case (Cons c cs)
  show ?case
  proof (cases "startsWith (utf16 ''**'') (c # cs)")
    case True
    then have "utf16 ''**'' @ drop 2 (c # cs) = c # cs"
      by (rule startsWith_drop)
    with True Cons.prems show ?thesis by simp
  next
    case False
    with Cons.prems have "lazy_dot (cap @ [c]) cs = Some (p, r)"
      by (simp split: if_splits)
    from Cons.IH [OF this] obtain x where "p = (cap @ [c]) @ x" "cs = x @ (utf16 ''**'') @ r" by blast
    then have "p = cap @ (c # x) \<and> c # cs = (c # x) @ (utf16 ''**'') @ r" by simp
    then show ?thesis by blast
  qed
qed

lemma match_bold_Some:
  assumes "match_bold s = Some (cap, rest)"
  shows "s = (utf16 ''**'') @ cap @ (utf16 ''**'') @ rest"
proof -
  from assms have sw: "startsWith (utf16 ''**'') s" and l: "lazy_dot [] (drop 2 s) = Some (cap, rest)"
    by (simp_all add: match_bold_def split: if_splits)
  from sw have "utf16 ''**'' @ drop 2 s = s"
    by (rule startsWith_drop)
  moreover from lazy_dot_Some [OF l] have "drop 2 s = cap @ utf16 ''**'' @ rest" by simp
  ultimately show ?thesis by (simp only: )
qed

lemma lazy_dot_find_marker:
  "list_all (\<lambda>c. \<not> is_line_terminator c) s \<Longrightarrow> lazy_dot cap s = find_marker cap s"
  by (induction s arbitrary: cap) simp_all

lemma find_marker_suffix:
  "find_marker a r \<noteq> None \<Longrightarrow> find_marker b (x @ r) \<noteq> None"
proof (induction x arbitrary: b)
  case Nil
  then show ?case
  proof (induction r arbitrary: a b)
    case Nil
    then show ?case by simp
  next
    case (Cons c cs)
    then show ?case by (cases "startsWith (utf16 ''**'') (c # cs)") auto
  qed
next
  case (Cons c x)
  then show ?case by simp
qed

lemma tag_parts_shift: "tag_parts (Suc (Suc n)) parts = tag_parts n parts"
  by (induction parts arbitrary: n) (simp_all add: tag_parts_def)

lemma tag_parts_single: "tag_parts 0 [p] = [PlainText p]"
  by (simp add: tag_parts_def)

lemma tag_parts_pair: "tag_parts 0 (p # b # rest) = PlainText p # Bold b # tag_parts 0 rest"
  using tag_parts_shift [of 0 rest] by (simp add: tag_parts_def)

lemma split_bold_length: "length (split_bold cur s) = 1 \<Longrightarrow> split_bold cur s = [cur @ s]"
proof (induction cur s rule: split_bold.induct)
  case (1 cur)
  show ?case by (simp add: split_bold.simps)
next
  case (2 cur c cs)
  show ?case
  proof (cases "match_bold (c # cs)")
    case None
    with 2 show ?thesis by (simp add: split_bold.simps)
  next
    case (Some m)
    with "2.prems" show ?thesis by (cases m) (simp add: split_bold.simps)
  qed
qed

lemma spans_of_formatInline: "spans_of (formatInline text) = tag_parts 0 (split_bold [] text)"
proof (cases "length (split_bold [] text) = 1")
  case True
  then have "split_bold [] text = [text]"
    using split_bold_length [of "[]" "text"] by simp
  with True show ?thesis
    by (simp add: formatInline_def tag_parts_single)
next
  case False
  then show ?thesis
    by (simp add: formatInline_def tag_parts_def Let_def)
qed

lemma split_bold_source:
  "concat (map span_source (tag_parts 0 (split_bold cur s))) = cur @ s"
proof (induction cur s rule: split_bold.induct)
  case (1 cur)
  show ?case by (simp add: split_bold.simps tag_parts_single)
next
  case (2 cur c cs)
  show ?case
  proof (cases "match_bold (c # cs)")
    case None
    with 2 show ?thesis by (simp add: split_bold.simps)
  next
    case (Some m)
    obtain cap rest where m: "m = (cap, rest)" by (cases m)
    with Some have mb: "match_bold (c # cs) = Some (cap, rest)" by simp
    have ih: "concat (map span_source (tag_parts 0 (split_bold [] rest))) = [] @ rest"
      using "2.IH"(2) [OF mb refl] .
    have "c # cs = (utf16 ''**'') @ cap @ (utf16 ''**'') @ rest"
      using mb by (rule match_bold_Some)
    with mb ih show ?thesis
      by (simp add: split_bold.simps tag_parts_pair)
  qed
qed

lemma split_bold_closed_form:
  assumes "list_all (\<lambda>c. \<not> is_line_terminator c) s"
  shows "split_bold cur s =
     (case find_marker cur s of
        None \<Rightarrow> [cur @ s]
      | Some (pre, rest) \<Rightarrow>
          (case find_marker [] rest of
             None \<Rightarrow> [cur @ s]
           | Some (content, rest') \<Rightarrow> pre # content # split_bold [] rest'))"
  using assms
proof (induction s arbitrary: cur)
  case Nil
  show ?case by (simp add: split_bold.simps)
next
  case (Cons c cs)
  from Cons.prems have nl: "list_all (\<lambda>c. \<not> is_line_terminator c) cs" by simp
  note ih = Cons.IH [OF nl, of "cur @ [c]"]
  show ?case
  proof (cases "startsWith (utf16 ''**'') (c # cs)")
    case False
    then have "match_bold (c # cs) = None" by (simp add: match_bold_def)
    then have "split_bold cur (c # cs) = split_bold (cur @ [c]) cs"
      by (simp add: split_bold.simps)
    with False ih show ?thesis by (simp split: option.splits prod.splits)
  next
    case True
    from Cons.prems have "list_all (\<lambda>c. \<not> is_line_terminator c) (drop 2 (c # cs))"
      by (auto simp: list_all_iff dest: in_set_dropD)
    then have mb: "match_bold (c # cs) = find_marker [] (drop 2 (c # cs))"
      using True by (simp add: match_bold_def lazy_dot_find_marker)
    from True have fm: "find_marker cur (c # cs) = Some (cur, drop 2 (c # cs))" by simp
    show ?thesis
    proof (cases "find_marker [] (drop 2 (c # cs))")
      case (Some m)
      with mb fm show ?thesis by (cases m) (simp add: split_bold.simps)
    next
      case None
      with mb have sb: "split_bold cur (c # cs) = split_bold (cur @ [c]) cs"
        by (simp add: split_bold.simps)
      have "split_bold (cur @ [c]) cs = [(cur @ [c]) @ cs]"
      proof (cases "find_marker (cur @ [c]) cs")
        case None
        with ih show ?thesis by simp
      next
        case (Some m)
        obtain pre rest where m: "m = (pre, rest)" by (cases m)
        with Some have s: "find_marker (cur @ [c]) cs = Some (pre, rest)" by simp
        from find_marker_Some [OF s] obtain x where x: "cs = x @ (utf16 ''**'') @ rest" by blast
        then have "drop 2 (c # cs) = tl (x @ (utf16 ''**'')) @ rest" by (cases x) simp_all
        with None have "find_marker [] (tl (x @ (utf16 ''**'')) @ rest) = None" by simp
        then have "find_marker [] rest = None"
          using find_marker_suffix [of "[]" rest "[]" "tl (x @ (utf16 ''**''))"] by blast
        with s ih show ?thesis by simp
      qed
      with sb fm None show ?thesis by simp
    qed
  qed
qed

lemma formatInline_refines:
  "list_all (\<lambda>c. \<not> is_line_terminator c) s \<Longrightarrow> tag_parts 0 (split_bold [] s) = spec_spans s"
proof (induction s rule: spec_spans.induct)
  case (1 s)
  note cf = split_bold_closed_form [OF "1.prems", of "[]"]
  show ?case
  proof (cases "find_marker [] s")
    case None
    with cf show ?thesis by (simp add: spec_spans.simps [of s] tag_parts_single)
  next
    case (Some m)
    obtain pre rest where m: "m = (pre, rest)" by (cases m)
    with Some have f1: "find_marker [] s = Some (pre, rest)" by simp
    show ?thesis
    proof (cases "find_marker [] rest")
      case None
      with cf f1 show ?thesis by (simp add: spec_spans.simps [of s] tag_parts_single)
    next
      case (Some m')
      obtain content rest' where m': "m' = (content, rest')" by (cases m')
      with Some have f2: "find_marker [] rest = Some (content, rest')" by simp
      from find_marker_Some [OF f1] obtain x where "s = x @ (utf16 ''**'') @ rest" by blast
      moreover from find_marker_Some [OF f2] obtain y where "rest = y @ (utf16 ''**'') @ rest'" by blast
      ultimately have "list_all (\<lambda>c. \<not> is_line_terminator c) rest'"
        using "1.prems" by simp
      then have "tag_parts 0 (split_bold [] rest') = spec_spans rest'"
        using "1.IH" [OF f1 refl f2 refl] by simp
      with cf f1 f2 show ?thesis
        by (simp add: spec_spans.simps [of s] tag_parts_pair)
    qed
  qed
qed

lemma is_digit_iff: "is_digit c \<longleftrightarrow> c \<in> set (utf16 ''0123456789'')"
  by (simp add: is_digit_def) arith

lemma match_ordered_iff:
  "match_ordered line = Some content \<longleftrightarrow>
     (\<exists>digits ws. digits \<noteq> [] \<and> set digits \<subseteq> set (utf16 ''0123456789'') \<and> is_space ws
        \<and> line = digits @ cu CHR ''.'' # ws # content)"
proof
  assume m: "match_ordered line = Some content"
  let ?d = "takeWhile is_digit line"
  from m have d: "?d \<noteq> []"
    by (auto simp: match_ordered_def Let_def split: if_splits)
  from m d obtain ws where r: "dropWhile is_digit line = cu CHR ''.'' # ws # content" and w: "is_space ws"
    by (auto simp: match_ordered_def Let_def split: if_splits list.splits)
  have "set ?d \<subseteq> set (utf16 ''0123456789'')"
    using is_digit_iff by (auto dest: set_takeWhileD)
  moreover have "line = ?d @ cu CHR ''.'' # ws # content"
    using r takeWhile_dropWhile_id [of is_digit line] by simp
  ultimately show "\<exists>digits ws. digits \<noteq> [] \<and> set digits \<subseteq> set (utf16 ''0123456789'') \<and> is_space ws
        \<and> line = digits @ cu CHR ''.'' # ws # content"
    using d w by blast
next
  assume "\<exists>digits ws. digits \<noteq> [] \<and> set digits \<subseteq> set (utf16 ''0123456789'') \<and> is_space ws
        \<and> line = digits @ cu CHR ''.'' # ws # content"
  then obtain digits ws where d: "digits \<noteq> []" "set digits \<subseteq> set (utf16 ''0123456789'')"
    and w: "is_space ws" and l: "line = digits @ cu CHR ''.'' # ws # content"
    by blast
  from d have all: "\<And>x. x \<in> set digits \<Longrightarrow> is_digit x"
    using is_digit_iff by blast
  have nd: "\<not> is_digit (cu CHR ''.'')" by (simp add: is_digit_def)
  have "takeWhile is_digit line = digits"
    using all nd by (simp add: l)
  moreover have "dropWhile is_digit line = cu CHR ''.'' # ws # content"
    using all nd by (simp add: l)
  ultimately show "match_ordered line = Some content"
    using d w by (simp add: match_ordered_def)
qed

lemma trim_Nil_iff: "trim s = [] \<longleftrightarrow> list_all is_space s"
proof -
  have "trim s = [] \<longleftrightarrow> (\<forall>x \<in> set (dropWhile is_space s). is_space x)"
    by (simp add: trim_def)
  also have "\<dots> \<longleftrightarrow> (\<forall>x \<in> set s. is_space x)"
  proof
    assume a: "\<forall>x \<in> set (dropWhile is_space s). is_space x"
    have "dropWhile is_space s = []"
    proof (rule ccontr)
      assume n: "dropWhile is_space s \<noteq> []"
      then have "\<not> is_space (hd (dropWhile is_space s))" by (rule hd_dropWhile)
      moreover from n have "hd (dropWhile is_space s) \<in> set (dropWhile is_space s)"
        by (rule hd_in_set)
      ultimately show False using a by blast
    qed
    then show "\<forall>x \<in> set s. is_space x"
      by (simp only: dropWhile_eq_Nil_conv)
  next
    assume "\<forall>x \<in> set s. is_space x"
    then show "\<forall>x \<in> set (dropWhile is_space s). is_space x"
      by (blast dest: set_dropWhileD)
  qed
  finally show ?thesis
    by (simp add: list_all_iff)
qed

lemma not_startsWith_digit:
  "is_digit c \<Longrightarrow> \<not> startsWith (utf16 ''### '') (c # cs) \<and> \<not> startsWith (utf16 ''## '') (c # cs)
     \<and> \<not> startsWith (utf16 ''# '') (c # cs) \<and> \<not> startsWith (utf16 ''- '') (c # cs) \<and> \<not> startsWith (utf16 ''* '') (c # cs)"
  by (auto simp: startsWith_def is_digit_def)

lemma not_startsWith_space:
  "list_all is_space line \<Longrightarrow> \<not> startsWith (utf16 ''### '') line \<and> \<not> startsWith (utf16 ''## '') line
     \<and> \<not> startsWith (utf16 ''# '') line \<and> \<not> startsWith (utf16 ''- '') line \<and> \<not> startsWith (utf16 ''* '') line"
  by (cases line) (auto simp: startsWith_def is_space_def)

lemma not_ordered_space: "list_all is_space line \<Longrightarrow> match_ordered line = None"
  by (cases line) (auto simp: match_ordered_def is_space_def is_digit_def)

lemma render_heading3: "startsWith (utf16 ''### '') line \<Longrightarrow> render_line line = Heading 3 (drop 4 line)"
  by (simp add: render_line_def)

lemma render_heading2: "startsWith (utf16 ''## '') line \<Longrightarrow> render_line line = Heading 2 (drop 3 line)"
  by (auto simp: render_line_def startsWith_iff)

lemma render_heading1: "startsWith (utf16 ''# '') line \<Longrightarrow> render_line line = Heading 1 (drop 2 line)"
  by (auto simp: render_line_def startsWith_iff)

lemma render_unordered:
  "startsWith (utf16 ''- '') line \<or> startsWith (utf16 ''* '') line \<Longrightarrow>
     render_line line = ListItem False (formatInline (drop 2 line))"
  by (auto simp: render_line_def startsWith_iff)

lemma render_ordered:
  assumes "digits \<noteq> []" "set digits \<subseteq> set (utf16 ''0123456789'')" "is_space ws"
  shows "render_line (digits @ cu CHR ''.'' # ws # content) = ListItem True (formatInline content)"
proof -
  let ?line = "digits @ cu CHR ''.'' # ws # content"
  have m: "match_ordered ?line = Some content"
    using assms match_ordered_iff [of ?line content] by blast
  obtain c cs where dc: "digits = c # cs" using assms(1) by (cases digits) auto
  with assms(2) have "is_digit c" using is_digit_iff by simp
  then have "\<not> startsWith (utf16 ''### '') ?line \<and> \<not> startsWith (utf16 ''## '') ?line
     \<and> \<not> startsWith (utf16 ''# '') ?line \<and> \<not> startsWith (utf16 ''- '') ?line \<and> \<not> startsWith (utf16 ''* '') ?line"
    using not_startsWith_digit [of c "cs @ cu CHR ''.'' # ws # content"] dc by simp
  with m show ?thesis
    by (simp add: render_line_def regex_test_def regex_replace_def)
qed

lemma render_blank: "list_all is_space line \<Longrightarrow> render_line line = BlankLine"
  using not_startsWith_space [of line] not_ordered_space [of line] trim_Nil_iff [of line]
  by (simp add: render_line_def regex_test_def)

lemma render_paragraph:
  assumes "\<not> startsWith (utf16 ''### '') line" "\<not> startsWith (utf16 ''## '') line" "\<not> startsWith (utf16 ''# '') line"
    "\<not> startsWith (utf16 ''- '') line" "\<not> startsWith (utf16 ''* '') line"
    "\<not> (\<exists>digits ws content. digits \<noteq> [] \<and> set digits \<subseteq> set (utf16 ''0123456789'') \<and> is_space ws
          \<and> line = digits @ cu CHR ''.'' # ws # content)"
    "\<not> list_all is_space line"
  shows "render_line line = Paragraph (formatInline line)"
proof -
  have "match_ordered line = None"
  proof (cases "match_ordered line")
    case None
    then show ?thesis .
  next
    case (Some content)
    then have "\<exists>digits ws. digits \<noteq> [] \<and> set digits \<subseteq> set (utf16 ''0123456789'') \<and> is_space ws
        \<and> line = digits @ cu CHR ''.'' # ws # content"
      by (simp only: match_ordered_iff)
    with assms(6) show ?thesis by blast
  qed
  moreover have "trim line \<noteq> []"
    using assms(7) by (simp add: trim_Nil_iff)
  ultimately show ?thesis
    using assms(1-5) by (simp add: render_line_def regex_test_def)
qed

text \<open>A text without any marker is returned as it is.\<close>

lemma formatInline_plain: "find_marker [] s = None \<Longrightarrow> formatInline s = Raw s"
proof -
  assume a: "find_marker [] s = None"
  have nomatch: "match_bold t = None" if "find_marker p t = None" for t p
  proof -
    have "\<not> startsWith (utf16 ''**'') t"
      using that by (cases t) (auto simp: startsWith_def split: if_splits)
    then show ?thesis by (simp add: match_bold_def)
  qed
  have "split_bold cur t = [cur @ t]" if "find_marker p t = None" for cur t p
    using that
  proof (induction t arbitrary: cur p)
    case Nil
    show ?case by (simp add: split_bold.simps)
  next
    case (Cons c cs)
    have "match_bold (c # cs) = None" using Cons.prems by (rule nomatch)
    moreover from Cons.prems have "find_marker (p @ [c]) cs = None"
      by (simp split: if_splits)
    ultimately show ?case using Cons.IH [of "p @ [c]" "cur @ [c]"]
      by (simp add: split_bold.simps)
  qed
  from this [OF a, of "[]"] show ?thesis
    by (simp add: formatInline_def)
qed

text \<open>Every element is of one of four kinds.\<close>

lemma render_line_shape:
  "(\<exists>n s. render_line line = Heading n s) \<or> render_line line = BlankLine
   \<or> (\<exists>ordered s. render_line line = ListItem ordered (formatInline s))
   \<or> render_line line = Paragraph (formatInline line)"
  unfolding render_line_def by (simp only: block.simps split: if_split) blast

text \<open>A match of the bold pattern is a bold pair, and the split follows the first pair.\<close>

lemma find_marker_pre:
  "find_marker pre s = map_option (\<lambda>(x, r). (pre @ x, r)) (find_marker [] s)"
proof (induction s arbitrary: pre)
  case Nil
  show ?case by simp
next
  case (Cons c cs)
  show ?case
  proof (cases "startsWith (utf16 ''**'') (c # cs)")
    case True
    then show ?thesis by simp
  next
    case False
    have "find_marker (pre @ [c]) cs = map_option (\<lambda>(x, r). ((pre @ [c]) @ x, r)) (find_marker [] cs)"
      by (rule Cons.IH)
    moreover have "find_marker [c] cs = map_option (\<lambda>(x, r). ([c] @ x, r)) (find_marker [] cs)"
      by (rule Cons.IH)
    ultimately show ?thesis
      using False by (cases "find_marker [] cs") auto
  qed
qed

lemma lazy_dot_iff:
  "lazy_dot cap s = Some (p, r) \<longleftrightarrow>
     (\<exists>x. p = cap @ x \<and> find_marker [] s = Some (x, r) \<and> list_all (\<lambda>c. \<not> is_line_terminator c) x)"
proof (induction s arbitrary: cap)
  case Nil
  show ?case by simp
next
  case (Cons c cs)
  note fm = find_marker_pre [of "[c]" cs]
  show ?case
  proof (cases "startsWith (utf16 ''**'') (c # cs)")
    case True
    then show ?thesis by auto
  next
    case False
    show ?thesis
    proof (cases "is_line_terminator c")
      case True
      with False fm show ?thesis by (cases "find_marker [] cs") auto
    next
      case nt: False
      with False fm Cons.IH [of "cap @ [c]"] show ?thesis
        by (cases "find_marker [] cs") auto
    qed
  qed
qed

lemma match_bold_iff: "match_bold s = Some (x, r) \<longleftrightarrow> bold_pair s x r"
proof
  assume m: "match_bold s = Some (x, r)"
  then have sw: "startsWith (utf16 ''**'') s" and l: "lazy_dot [] (drop 2 s) = Some (x, r)"
    by (simp_all add: match_bold_def split: if_splits)
  from l have f: "find_marker [] (drop 2 s) = Some (x, r)"
    and n: "list_all (\<lambda>c. \<not> is_line_terminator c) x"
    by (simp_all add: lazy_dot_iff)
  from find_marker_Some [OF f] have d: "drop 2 s = x @ utf16 ''**'' @ r" by simp
  from sw have "utf16 ''**'' @ drop 2 s = s" by (rule startsWith_drop)
  with d have "s = utf16 ''**'' @ x @ utf16 ''**'' @ r" by (simp only: )
  with f d n show "bold_pair s x r" by (simp only: bold_pair_def simp_thms)
next
  assume "bold_pair s x r"
  then have s: "s = utf16 ''**'' @ x @ utf16 ''**'' @ r"
    and n: "list_all (\<lambda>c. \<not> is_line_terminator c) x"
    and f: "find_marker [] (x @ utf16 ''**'' @ r) = Some (x, r)"
    by (simp_all only: bold_pair_def)
  from s have "startsWith (utf16 ''**'') s" and "drop 2 s = x @ utf16 ''**'' @ r"
    by (simp_all add: startsWith_def)
  with n f show "match_bold s = Some (x, r)"
    by (simp add: match_bold_def lazy_dot_iff)
qed

lemma split_bold_no_pair:
  "(\<And>u v x r. t = u @ v \<Longrightarrow> \<not> bold_pair v x r) \<Longrightarrow> split_bold cur t = [cur @ t]"
proof (induction t arbitrary: cur)
  case Nil
  show ?case by (simp add: split_bold.simps)
next
  case (Cons c cs)
  have "match_bold (c # cs) = None"
  proof (cases "match_bold (c # cs)")
    case None then show ?thesis .
  next
    case (Some m)
    then obtain x r where "match_bold (c # cs) = Some (x, r)" by (cases m) simp
    then have "bold_pair (c # cs) x r" by (simp only: match_bold_iff)
    with Cons.prems [of "[]" "c # cs" x r] show ?thesis by simp
  qed
  moreover have "split_bold (cur @ [c]) cs = [(cur @ [c]) @ cs]"
  proof (rule Cons.IH)
    fix u v x r
    assume "cs = u @ v"
    then have "c # cs = (c # u) @ v" by simp
    then show "\<not> bold_pair v x r" by (rule Cons.prems)
  qed
  ultimately show ?case by (simp add: split_bold.simps)
qed

lemma split_bold_first_pair:
  assumes "bold_pair v x r"
    and "\<And>u1 u2 x' r'. u = u1 @ u2 \<Longrightarrow> u2 \<noteq> [] \<Longrightarrow> \<not> bold_pair (u2 @ v) x' r'"
  shows "split_bold cur (u @ v) = (cur @ u) # x # split_bold [] r"
  using assms(2)
proof (induction u arbitrary: cur)
  case Nil
  from assms(1) have m: "match_bold v = Some (x, r)" by (simp only: match_bold_iff)
  then have "v \<noteq> []" by (auto simp: match_bold_def startsWith_def)
  then obtain c cs where "v = c # cs" by (cases v) auto
  with m show ?case by (simp add: split_bold.simps)
next
  case (Cons a u)
  have "match_bold (a # u @ v) = None"
  proof (cases "match_bold (a # u @ v)")
    case None then show ?thesis .
  next
    case (Some m)
    then obtain x' r' where "match_bold (a # u @ v) = Some (x', r')" by (cases m) simp
    then have "bold_pair ((a # u) @ v) x' r'" by (simp add: match_bold_iff)
    with Cons.prems [of "[]" "a # u" x' r'] show ?thesis by simp
  qed
  moreover have "split_bold (cur @ [a]) (u @ v) = ((cur @ [a]) @ u) # x # split_bold [] r"
  proof (rule Cons.IH)
    fix u1 u2 x' r'
    assume "u = u1 @ u2" "u2 \<noteq> []"
    then have "a # u = (a # u1) @ u2" by simp
    from Cons.prems [OF this \<open>u2 \<noteq> []\<close>] show "\<not> bold_pair (u2 @ v) x' r'" .
  qed
  ultimately show ?case by (simp add: split_bold.simps)
qed

lemma formatInline_first_pair:
  assumes "bold_pair v x r"
    and "\<And>u1 u2 x' r'. u = u1 @ u2 \<Longrightarrow> u2 \<noteq> [] \<Longrightarrow> \<not> bold_pair (u2 @ v) x' r'"
  shows "spans_of (formatInline (u @ v)) = PlainText u # Bold x # spans_of (formatInline r)"
proof -
  have "split_bold [] (u @ v) = ([] @ u) # x # split_bold [] r"
    by (rule split_bold_first_pair [OF assms(1)]) (rule assms(2))
  then show ?thesis
    by (simp add: spans_of_formatInline tag_parts_pair)
qed

lemma formatInline_no_pair:
  assumes "\<And>u v x r. t = u @ v \<Longrightarrow> \<not> bold_pair v x r"
  shows "formatInline t = Raw t"
proof -
  have "split_bold [] t = [[] @ t]"
    by (rule split_bold_no_pair) (rule assms)
  then show ?thesis
    by (simp add: formatInline_def)
qed

text \<open>The loops return what the total functions compute.\<close>

lemma push_empty_loop_returns: "push_empty_loop i n squares = Some (push_empty i n squares)"
proof (induction i n squares rule: push_empty.induct)
  case (1 i n squares)
  then show ?case
    by (simp add: push_empty_loop.simps [of i n squares] push_empty.simps [of i n squares])
qed

lemma pad_row_loop_returns: "pad_row_loop squares = Some (pad_row squares)"
proof (induction squares rule: pad_row.induct)
  case (1 squares)
  then show ?case
    by (simp add: pad_row_loop.simps [of squares] pad_row.simps [of squares])
qed

lemma scan_row_run_returns: "scan_row_run row squares = Some (scan_row row squares)"
  by (induction row arbitrary: squares) (simp_all add: push_empty_loop_returns)

lemma decode_row_run_returns: "decode_row_run row = Some (Inr (decode_row row))"
  by (simp add: decode_row_run_def decode_row_def scan_row_run_returns pad_row_loop_returns)

lemma map_run_returns:
  "(\<And>x. x \<in> set xs \<Longrightarrow> f x = Some (Inr (g x))) \<Longrightarrow> map_run f xs = Some (Inr (map g xs))"
  by (induction xs) (simp_all add: bind_run_def)

lemma split_bold_loop_returns: "split_bold_loop out cur s = Some (out @ split_bold cur s)"
proof (induction cur s arbitrary: out rule: split_bold.induct)
  case (1 cur)
  show ?case by (simp add: split_bold_loop.simps [of out cur "[]"] split_bold.simps)
next
  case (2 cur c cs)
  show ?case
  proof (cases "match_bold (c # cs)")
    case None
    with "2.IH"(1) [of out] show ?thesis
      by (simp add: split_bold_loop.simps [of out cur "c # cs"] split_bold.simps)
  next
    case (Some m)
    obtain cap rest where m: "m = (cap, rest)" by (cases m)
    with Some have mb: "match_bold (c # cs) = Some (cap, rest)" by simp
    from "2.IH"(2) [OF mb refl, of "out @ [cur, cap]"] mb show ?thesis
      by (simp add: split_bold_loop.simps [of out cur "c # cs"] split_bold.simps)
  qed
qed

lemma formatInline_run_returns: "formatInline_run (Some t) = Some (Inr (formatInline t))"
  using split_bold_loop_returns [of "[]" "[]" t]
  by (simp add: formatInline_run_def formatInline_def receiver_def bind_run_def Let_def)

lemma render_line_run_returns: "render_line_run line = Some (Inr (render_line line))"
  by (simp add: render_line_run_def render_line_def formatInline_run_returns bind_run_def)

lemma parseFEN_run_eq: "parseFEN_run fen = Some (parseFEN fen)"
proof (cases fen)
  case None
  then show ?thesis by (simp add: parseFEN_run_def)
next
  case (Some s)
  have "map_run decode_row_run (fen_rows s) = Some (Inr (map decode_row (fen_rows s)))"
    by (rule map_run_returns) (rule decode_row_run_returns)
  with Some show ?thesis
    by (simp add: parseFEN_run_def receiver_def bind_run_def)
qed

lemma renderMarkdown_run_eq: "renderMarkdown_run md = Some (renderMarkdown md)"
proof (cases md)
  case None
  then show ?thesis by (simp add: renderMarkdown_run_def)
next
  case (Some s)
  have "map_run render_line_run (split_str 0x0A s) = Some (Inr (map render_line (split_str 0x0A s)))"
    by (rule map_run_returns) (rule render_line_run_returns)
  with Some show ?thesis
    by (simp add: renderMarkdown_run_def receiver_def bind_run_def)
qed

section \<open>The markdown renderer: results\<close>

text \<open>
  Claim C3 asks for a space after the dot of a numbered item. The expression in the source is
  \<^verbatim>\<open>/^\d+\.\s/\<close>, and \<^verbatim>\<open>\s\<close> matches any white space character. The line \<open>1.\<close>, tab, \<open>x\<close> has
  no space after the dot, so by the claim it is a paragraph; the source makes it an ordered
  list item with the text \<open>x\<close>.
\<close>

theorem render_line_tab_counterexample:
  "\<not> spec_ordered_item (utf16 ''1.'' @ 0x09 # utf16 ''x'')
   \<and> render_line (utf16 ''1.'' @ 0x09 # utf16 ''x'') = ListItem True (Raw (utf16 ''x''))"
proof -
  have "render_line (utf16 ''1'' @ cu CHR ''.'' # 0x09 # utf16 ''x'')
      = ListItem True (formatInline (utf16 ''x''))"
    by (rule render_ordered) (simp_all add: is_space_def)
  moreover have "formatInline (utf16 ''x'') = Raw (utf16 ''x'')"
    by (rule formatInline_plain) (simp add: startsWith_def)
  ultimately show ?thesis
    by (simp add: spec_ordered_item_def startsWith_def)
qed

text \<open>
  Claim C3, as amended. The element of a line is given by these rules:
  the prefix \<open>### \<close> gives a level 3 heading with the text after 4 characters;
  the prefix \<open>## \<close> gives a level 2 heading with the text after 3 characters;
  the prefix \<open># \<close> gives a level 1 heading with the text after 2 characters;
  the prefix \<open>- \<close> or \<open>* \<close> gives an unordered list item with the text after 2 characters;
  one or more digits \<open>0\<close> to \<open>9\<close>, a dot, one white space character of the class \<^verbatim>\<open>\s\<close> (tab,
  line feed, vertical tab, form feed, carriage return, space, no-break space, U+1680, U+2000 to
  U+200A, U+2028, U+2029, U+202F, U+205F, U+3000, U+FEFF) and then any content, possibly empty,
  give an ordered list item with that content;
  an empty line or a line of such white space characters only gives a blank line;
  every other line gives a paragraph with the unmodified line.
  No line matches two of the first six rules, so each holds on its own and their order does not
  matter. Headings carry their text as a string; list items and paragraphs carry the result of
  \<^verbatim>\<open>formatInline\<close> on theirs.
\<close>

theorem render_line_rules:
  "(startsWith (utf16 ''### '') line \<longrightarrow> render_line line = Heading 3 (drop 4 line))
   \<and> (startsWith (utf16 ''## '') line \<longrightarrow> render_line line = Heading 2 (drop 3 line))
   \<and> (startsWith (utf16 ''# '') line \<longrightarrow> render_line line = Heading 1 (drop 2 line))
   \<and> (startsWith (utf16 ''- '') line \<or> startsWith (utf16 ''* '') line \<longrightarrow>
        render_line line = ListItem False (formatInline (drop 2 line)))
   \<and> (digits \<noteq> [] \<and> set digits \<subseteq> set (utf16 ''0123456789'') \<and> is_space ws \<longrightarrow>
        render_line (digits @ cu CHR ''.'' # ws # content) = ListItem True (formatInline content))
   \<and> (list_all is_space line \<longrightarrow> render_line line = BlankLine)
   \<and> (\<not> startsWith (utf16 ''### '') line \<and> \<not> startsWith (utf16 ''## '') line
        \<and> \<not> startsWith (utf16 ''# '') line
        \<and> \<not> startsWith (utf16 ''- '') line \<and> \<not> startsWith (utf16 ''* '') line
        \<and> \<not> (\<exists>ds w rest. ds \<noteq> [] \<and> set ds \<subseteq> set (utf16 ''0123456789'') \<and> is_space w
                \<and> line = ds @ cu CHR ''.'' # w # rest)
        \<and> \<not> list_all is_space line \<longrightarrow>
        render_line line = Paragraph (formatInline line))"
  using render_heading3 [of line] render_heading2 [of line] render_heading1 [of line]
    render_unordered [of line] render_ordered [of digits ws content] render_blank [of line]
    render_paragraph [of line]
  by blast

theorem render_line_rules_witness:
  "startsWith (utf16 ''### '') (utf16 ''### Plan'')
   \<and> render_line (utf16 ''### Plan'') = Heading 3 (utf16 ''Plan'')
   \<and> startsWith (utf16 ''## '') (utf16 ''## Plan'')
   \<and> render_line (utf16 ''## Plan'') = Heading 2 (utf16 ''Plan'')
   \<and> startsWith (utf16 ''# '') (utf16 ''# Title'')
   \<and> render_line (utf16 ''# Title'') = Heading 1 (utf16 ''Title'')
   \<and> startsWith (utf16 ''* '') (utf16 ''* item'')
   \<and> render_line (utf16 ''* item'') = ListItem False (Raw (utf16 ''item''))
   \<and> utf16 ''12'' \<noteq> [] \<and> set (utf16 ''12'') \<subseteq> set (utf16 ''0123456789'') \<and> is_space 0x3000
   \<and> render_line (utf16 ''12'' @ cu CHR ''.'' # 0x3000 # utf16 ''second'')
       = ListItem True (Raw (utf16 ''second''))
   \<and> list_all is_space [0x20, 0x2028, 0xFEFF] \<and> render_line [0x20, 0x2028, 0xFEFF] = BlankLine
   \<and> \<not> startsWith (utf16 ''### '') (utf16 ''1.e4 c5'')
   \<and> \<not> startsWith (utf16 ''## '') (utf16 ''1.e4 c5'')
   \<and> \<not> startsWith (utf16 ''# '') (utf16 ''1.e4 c5'')
   \<and> \<not> startsWith (utf16 ''- '') (utf16 ''1.e4 c5'')
   \<and> \<not> startsWith (utf16 ''* '') (utf16 ''1.e4 c5'')
   \<and> \<not> (\<exists>ds w rest. ds \<noteq> [] \<and> set ds \<subseteq> set (utf16 ''0123456789'') \<and> is_space w
             \<and> utf16 ''1.e4 c5'' = ds @ cu CHR ''.'' # w # rest)
   \<and> \<not> list_all is_space (utf16 ''1.e4 c5'')
   \<and> render_line (utf16 ''1.e4 c5'') = Paragraph (Raw (utf16 ''1.e4 c5''))"
proof -
  have plain: "formatInline (utf16 ''Plan'') = Raw (utf16 ''Plan'')"
    "formatInline (utf16 ''item'') = Raw (utf16 ''item'')"
    "formatInline (utf16 ''second'') = Raw (utf16 ''second'')"
    "formatInline (utf16 ''1.e4 c5'') = Raw (utf16 ''1.e4 c5'')"
    by (rule formatInline_plain, simp add: startsWith_def)+
  have no: "\<not> (\<exists>ds w rest. ds \<noteq> [] \<and> set ds \<subseteq> set (utf16 ''0123456789'') \<and> is_space w
                \<and> utf16 ''1.e4 c5'' = ds @ cu CHR ''.'' # w # rest)"
  proof
    assume "\<exists>ds w rest. ds \<noteq> [] \<and> set ds \<subseteq> set (utf16 ''0123456789'') \<and> is_space w
                \<and> utf16 ''1.e4 c5'' = ds @ cu CHR ''.'' # w # rest"
    then obtain rest where "match_ordered (utf16 ''1.e4 c5'') = Some rest"
      using match_ordered_iff [of "utf16 ''1.e4 c5''"] by blast
    then show False
      by (simp add: match_ordered_def is_digit_def is_space_def)
  qed
  have sp: "is_space 0x3000" "list_all is_space [0x20, 0x2028, 0xFEFF]"
    "\<not> list_all is_space (utf16 ''1.e4 c5'')"
    by (simp_all add: is_space_def)
  have sw: "startsWith (utf16 ''### '') (utf16 ''### Plan'')"
    "startsWith (utf16 ''## '') (utf16 ''## Plan'')"
    "startsWith (utf16 ''# '') (utf16 ''# Title'')"
    "startsWith (utf16 ''* '') (utf16 ''* item'')"
    "\<not> startsWith (utf16 ''### '') (utf16 ''1.e4 c5'')"
    "\<not> startsWith (utf16 ''## '') (utf16 ''1.e4 c5'')"
    "\<not> startsWith (utf16 ''# '') (utf16 ''1.e4 c5'')"
    "\<not> startsWith (utf16 ''- '') (utf16 ''1.e4 c5'')"
    "\<not> startsWith (utf16 ''* '') (utf16 ''1.e4 c5'')"
    by (simp_all add: startsWith_def)
  have dg: "utf16 ''12'' \<noteq> []" "set (utf16 ''12'') \<subseteq> set (utf16 ''0123456789'')"
    by simp_all
  have dr: "drop 4 (utf16 ''### Plan'') = utf16 ''Plan''" "drop 3 (utf16 ''## Plan'') = utf16 ''Plan''"
    "drop 2 (utf16 ''# Title'') = utf16 ''Title''" "drop 2 (utf16 ''* item'') = utf16 ''item''"
    by simp_all
  note r = render_line_rules [of _ "utf16 ''12''" "0x3000" "utf16 ''second''"]
  have "render_line (utf16 ''### Plan'') = Heading 3 (utf16 ''Plan'')"
    using r [of "utf16 ''### Plan''"] sw dr by (simp only: simp_thms)
  moreover have "render_line (utf16 ''## Plan'') = Heading 2 (utf16 ''Plan'')"
    using r [of "utf16 ''## Plan''"] sw dr by (simp only: simp_thms)
  moreover have "render_line (utf16 ''# Title'') = Heading 1 (utf16 ''Title'')"
    using r [of "utf16 ''# Title''"] sw dr by (simp only: simp_thms)
  moreover have "render_line (utf16 ''* item'') = ListItem False (Raw (utf16 ''item''))"
    using r [of "utf16 ''* item''"] sw dr plain by (simp only: simp_thms)
  moreover have "render_line (utf16 ''12'' @ cu CHR ''.'' # 0x3000 # utf16 ''second'')
       = ListItem True (Raw (utf16 ''second''))"
    using r [of "[]"] dg sp plain by (simp only: simp_thms)
  moreover have "render_line [0x20, 0x2028, 0xFEFF] = BlankLine"
    using r [of "[0x20, 0x2028, 0xFEFF]"] sp by (simp only: simp_thms)
  moreover have "render_line (utf16 ''1.e4 c5'') = Paragraph (Raw (utf16 ''1.e4 c5''))"
    using r [of "utf16 ''1.e4 c5''"] sw sp no plain by (simp only: simp_thms)
  ultimately show ?thesis
    using sw sp dg no by (simp only: simp_thms)
qed

text \<open>
  Claim C4 says that in every block's text each segment between a pair of \<^verbatim>\<open>**\<close> markers
  becomes a bold span. Two inputs show otherwise. The dot of \<^verbatim>\<open>(.*?)\<close> does not match a line
  terminator, so in \<^verbatim>\<open>**a\rb**\<close> the segment between the markers is not found and the text stays
  plain. And \<^verbatim>\<open>renderMarkdown\<close> does not call \<^verbatim>\<open>formatInline\<close> on the text of a heading: the
  markers of \<^verbatim>\<open># **a**\<close> stay in the heading's text.
\<close>

theorem formatInline_counterexample:
  "spans_of (formatInline (utf16 ''**a'' @ 0x0D # utf16 ''b**''))
     \<noteq> spec_spans (utf16 ''**a'' @ 0x0D # utf16 ''b**'')
   \<and> formatInline (utf16 ''**a'' @ 0x0D # utf16 ''b**'') = Raw (utf16 ''**a'' @ 0x0D # utf16 ''b**'')
   \<and> spec_spans (utf16 ''**a'' @ 0x0D # utf16 ''b**'')
       = [PlainText [], Bold (utf16 ''a'' @ 0x0D # utf16 ''b''), PlainText []]
   \<and> renderMarkdown (Some (utf16 ''# **a**'')) = Inr (Some [Heading 1 (utf16 ''**a**'')])"
proof -
  have a: "formatInline (utf16 ''**a'' @ 0x0D # utf16 ''b**'')
      = Raw (utf16 ''**a'' @ 0x0D # utf16 ''b**'')"
    by (simp add: formatInline_def split_bold.simps match_bold_def startsWith_def
        is_line_terminator_def)
  have b: "spec_spans (utf16 ''**a'' @ 0x0D # utf16 ''b**'')
       = [PlainText [], Bold (utf16 ''a'' @ 0x0D # utf16 ''b''), PlainText []]"
    using spec_spans.simps [of "utf16 ''**a'' @ 0x0D # utf16 ''b**''"] spec_spans.simps [of "[]"]
    by (simp add: startsWith_def)
  have c: "renderMarkdown (Some (utf16 ''# **a**'')) = Inr (Some [Heading 1 (utf16 ''**a**'')])"
    by (simp add: split_str_def render_line_def startsWith_def)
  from a b c show ?thesis by simp
qed

text \<open>
  Claim C4, as amended. A bold pair is an opening marker, a content without a line terminator
  (line feed, carriage return, U+2028, U+2029) that ends at the next marker, and that closing
  marker. \<^verbatim>\<open>formatInline\<close> splits a text at the first position where a bold pair begins: the
  text before it is a plain span, the content of the pair is a bold span, and the spans of the
  text after the closing marker follow. A text in which no bold pair begins anywhere is returned
  as it is, so a marker that is never closed, or whose segment up to the next marker holds a
  line terminator, stays in the plain text. On a text without a line terminator this is the
  specification's inline pass. On every text, putting the markers back around the bold spans
  and concatenating gives the text again. \<open>plain **bold** text\<close> gives a plain, a bold and a
  plain span, and as a line it is one paragraph with these spans. The inline pass is applied to
  the text of list items and paragraphs; a heading keeps its text as a string.
\<close>

theorem formatInline_spans:
  "(bold_pair v x r
      \<and> (\<forall>u1 u2 x' r'. u = u1 @ u2 \<and> u2 \<noteq> [] \<longrightarrow> \<not> bold_pair (u2 @ v) x' r') \<longrightarrow>
      spans_of (formatInline (u @ v)) = PlainText u # Bold x # spans_of (formatInline r))
   \<and> ((\<forall>u' v' x' r'. t = u' @ v' \<longrightarrow> \<not> bold_pair v' x' r') \<longrightarrow> formatInline t = Raw t)
   \<and> (list_all (\<lambda>c. \<not> is_line_terminator c) t \<longrightarrow> spans_of (formatInline t) = spec_spans t)
   \<and> concat (map span_source (spans_of (formatInline t))) = t
   \<and> spans_of (formatInline (utf16 ''plain **bold** text''))
       = [PlainText (utf16 ''plain ''), Bold (utf16 ''bold''), PlainText (utf16 '' text'')]
   \<and> renderMarkdown (Some (utf16 ''plain **bold** text''))
       = Inr (Some [Paragraph (Spans [PlainText (utf16 ''plain ''), Bold (utf16 ''bold''),
                                       PlainText (utf16 '' text'')])])
   \<and> ((\<exists>n s. render_line line = Heading n s) \<or> render_line line = BlankLine
        \<or> (\<exists>ordered s. render_line line = ListItem ordered (formatInline s))
        \<or> render_line line = Paragraph (formatInline line))"
proof (intro conjI impI)
  assume a: "bold_pair v x r
      \<and> (\<forall>u1 u2 x' r'. u = u1 @ u2 \<and> u2 \<noteq> [] \<longrightarrow> \<not> bold_pair (u2 @ v) x' r')"
  show "spans_of (formatInline (u @ v)) = PlainText u # Bold x # spans_of (formatInline r)"
  proof (rule formatInline_first_pair)
    show "bold_pair v x r" using a by blast
    show "\<not> bold_pair (u2 @ v) x' r'" if "u = u1 @ u2" "u2 \<noteq> []" for u1 u2 x' r'
      using a that by blast
  qed
next
  assume a: "\<forall>u' v' x' r'. t = u' @ v' \<longrightarrow> \<not> bold_pair v' x' r'"
  show "formatInline t = Raw t"
  proof (rule formatInline_no_pair)
    show "\<not> bold_pair v' x' r'" if "t = u' @ v'" for u' v' x' r'
      using a that by blast
  qed
next
  show "spans_of (formatInline t) = spec_spans t"
    if "list_all (\<lambda>c. \<not> is_line_terminator c) t"
    using that by (simp add: spans_of_formatInline formatInline_refines)
  show "concat (map span_source (spans_of (formatInline t))) = t"
    using split_bold_source [of "[]" t] by (simp add: spans_of_formatInline)
  have ex: "formatInline (utf16 ''plain **bold** text'')
      = Spans [PlainText (utf16 ''plain ''), Bold (utf16 ''bold''), PlainText (utf16 '' text'')]"
    by (simp add: formatInline_def split_bold.simps match_bold_def startsWith_def
        is_line_terminator_def)
  then show "spans_of (formatInline (utf16 ''plain **bold** text''))
       = [PlainText (utf16 ''plain ''), Bold (utf16 ''bold''), PlainText (utf16 '' text'')]"
    by simp
  have "render_line (utf16 ''plain **bold** text'')
      = Paragraph (formatInline (utf16 ''plain **bold** text''))"
    by (simp add: render_line_def startsWith_def regex_test_def match_ordered_def trim_def
        is_digit_def is_space_def)
  with ex show "renderMarkdown (Some (utf16 ''plain **bold** text''))
       = Inr (Some [Paragraph (Spans [PlainText (utf16 ''plain ''), Bold (utf16 ''bold''),
                                       PlainText (utf16 '' text'')])])"
    by (simp add: split_str_def)
  show "(\<exists>n s. render_line line = Heading n s) \<or> render_line line = BlankLine
        \<or> (\<exists>ordered s. render_line line = ListItem ordered (formatInline s))
        \<or> render_line line = Paragraph (formatInline line)"
    by (rule render_line_shape)
qed

theorem formatInline_spans_witness:
  "bold_pair (utf16 ''**b**'' @ [0x0D]) (utf16 ''b'') [0x0D]
   \<and> \<not> (\<exists>u1 u2 x' r'. utf16 ''a '' = u1 @ u2 \<and> u2 \<noteq> []
           \<and> bold_pair (u2 @ utf16 ''**b**'' @ [0x0D]) x' r')
   \<and> spans_of (formatInline (utf16 ''a '' @ utf16 ''**b**'' @ [0x0D]))
       = [PlainText (utf16 ''a ''), Bold (utf16 ''b''), PlainText [0x0D]]
   \<and> \<not> (\<exists>u' v' x' r'. utf16 ''**x'' = u' @ v' \<and> bold_pair v' x' r')
   \<and> formatInline (utf16 ''**x'') = Raw (utf16 ''**x'')
   \<and> list_all (\<lambda>c. \<not> is_line_terminator c) (utf16 ''x **y** z **w'')
   \<and> spans_of (formatInline (utf16 ''x **y** z **w''))
       = [PlainText (utf16 ''x ''), Bold (utf16 ''y''), PlainText (utf16 '' z **w'')]
   \<and> concat (map span_source [PlainText (utf16 ''x ''), Bold (utf16 ''y''),
                               PlainText (utf16 '' z **w'')]) = utf16 ''x **y** z **w''"
proof -
  have p: "bold_pair (utf16 ''**b**'' @ [0x0D]) (utf16 ''b'') [0x0D]"
    by (simp add: bold_pair_def startsWith_def is_line_terminator_def)
  have e: "\<not> (\<exists>u1 u2 x' r'. utf16 ''a '' = u1 @ u2 \<and> u2 \<noteq> []
           \<and> bold_pair (u2 @ utf16 ''**b**'' @ [0x0D]) x' r')"
    by (auto simp: bold_pair_def Cons_eq_append_conv)
  have n: "\<not> (\<exists>u' v' x' r'. utf16 ''**x'' = u' @ v' \<and> bold_pair v' x' r')"
    by (auto simp: bold_pair_def Cons_eq_append_conv)
  have cr: "spans_of (formatInline [0x0D]) = [PlainText [0x0D]]"
    by (simp add: formatInline_plain startsWith_def)
  have l: "list_all (\<lambda>c. \<not> is_line_terminator c) (utf16 ''x **y** z **w'')"
    by (simp add: is_line_terminator_def)
  have s: "spec_spans (utf16 ''x **y** z **w'')
      = [PlainText (utf16 ''x ''), Bold (utf16 ''y''), PlainText (utf16 '' z **w'')]"
    using spec_spans.simps [of "utf16 ''x **y** z **w''"] spec_spans.simps [of "utf16 '' z **w''"]
    by (simp add: startsWith_def)
  note th = formatInline_spans [of "utf16 ''**b**'' @ [0x0D]" "utf16 ''b''" "[0x0D]" "utf16 ''a ''" _ "[]"]
  have "spans_of (formatInline (utf16 ''a '' @ utf16 ''**b**'' @ [0x0D]))
       = [PlainText (utf16 ''a ''), Bold (utf16 ''b''), PlainText [0x0D]]"
    using th [of "[]"] p e cr by (simp only: ) blast
  moreover have "formatInline (utf16 ''**x'') = Raw (utf16 ''**x'')"
    using th [of "utf16 ''**x''"] n by blast
  moreover have "spans_of (formatInline (utf16 ''x **y** z **w''))
       = [PlainText (utf16 ''x ''), Bold (utf16 ''y''), PlainText (utf16 '' z **w'')]"
    using th [of "utf16 ''x **y** z **w''"] l s by (simp only: )
  moreover have "concat (map span_source [PlainText (utf16 ''x ''), Bold (utf16 ''y''),
                               PlainText (utf16 '' z **w'')]) = utf16 ''x **y** z **w''"
    by simp
  ultimately show ?thesis
    using p e n l by (simp only: simp_thms)
qed

text \<open>
  Claim C9 says that two newline characters give exactly two blank lines. Splitting the
  two-character string at the newlines gives three empty lines, and each becomes an element.
\<close>

theorem renderMarkdown_two_newlines_counterexample:
  "renderMarkdown (Some [0x0A, 0x0A]) \<noteq> Inr (Some [BlankLine, BlankLine])"
  by (simp add: split_str_def)

text \<open>
  Claim C9, as amended. \<^verbatim>\<open>renderMarkdown\<close> applied to two newline characters yields exactly
  three blank lines, one for each of the three empty lines of the split.
\<close>

theorem renderMarkdown_two_newlines:
  "renderMarkdown (Some [0x0A, 0x0A]) = Inr (Some [BlankLine, BlankLine, BlankLine])"
  using render_blank [of "[]"] by (simp add: split_str_def)

text \<open>
  Claim C8. Run as programs, \<^verbatim>\<open>parseFEN\<close> and \<^verbatim>\<open>renderMarkdown\<close> return a result on every
  argument, the empty string, the absent value and every malformed string included: the run
  neither goes on forever nor throws. \<^verbatim>\<open>formatInline\<close> returns on every string. The results are
  those of the total functions of the sections above.
\<close>

theorem core_functions_total:
  "(\<exists>b. parseFEN_run fen = Some (Inr b)) \<and> (\<exists>r. renderMarkdown_run md = Some (Inr r))
   \<and> (\<exists>i. formatInline_run (Some t) = Some (Inr i))
   \<and> parseFEN_run fen = Some (parseFEN fen) \<and> renderMarkdown_run md = Some (renderMarkdown md)"
proof (intro conjI)
  show "\<exists>b. parseFEN_run fen = Some (Inr b)"
    by (cases fen) (simp_all add: parseFEN_run_eq)
  show "\<exists>r. renderMarkdown_run md = Some (Inr r)"
    by (cases md) (simp_all add: renderMarkdown_run_eq)
  show "\<exists>i. formatInline_run (Some t) = Some (Inr i)"
    by (simp add: formatInline_run_returns)
  show "parseFEN_run fen = Some (parseFEN fen)" by (rule parseFEN_run_eq)
  show "renderMarkdown_run md = Some (renderMarkdown md)" by (rule renderMarkdown_run_eq)
qed

end
